theory Spec2Isabelle
  imports Main
begin

section \<open>JavaScript values\<close>

text \<open>
  The resolver of \<^verbatim>\<open>logical-config.js\<close> works on dynamically typed values: the input
  tree, the data map and the descriptors are all plain JavaScript values. A callable
  (function or class) is represented by what the code inspects of it: its own property
  names, its \<^verbatim>\<open>length\<close>, and the \<^verbatim>\<open>length\<close> of
  \<^verbatim>\<open>prototype.constructor || []\<close>; the identifier \<open>fid\<close> names its behaviour,
  which the host supplies. Numbers are the integers, with \<open>NaN\<close> beside them. Objects
  are association lists in property order. Members inherited from the built-in
  prototypes, and the properties of a callable other than \<^verbatim>\<open>length\<close>, are not
  represented and read as \<^verbatim>\<open>undefined\<close>.
\<close>

datatype callable = Callable (fid: nat) (ownNames: "string list") (flen: nat) (ctorLen: nat)

datatype jsval =
    Undefined
  | Null
  | Bool bool
  | Num int
  | NaN
  | Str string
  | Arr "jsval list"
  | Obj "(string \<times> jsval) list"
  | Fun callable

datatype error =
    SyntaxError string
  | NotAccessible jsval
  | NotCallable jsval
  | InvalidParameterCount jsval jsval jsval
  | TypeError
  | HostError string

text \<open>
  What the code takes from its host: \<^verbatim>\<open>JSON.parse\<close> (\<open>None\<close> when it throws a
  SyntaxError), calling a function (\<^verbatim>\<open>resolved(...args)\<close>) and constructing an
  instance (\<^verbatim>\<open>new resolved(...args)\<close>); either of the last two may throw.
\<close>

record host =
  JSON_parse :: "string \<Rightarrow> jsval option"
  call_fn :: "callable \<Rightarrow> jsval list \<Rightarrow> error + jsval"
  construct :: "callable \<Rightarrow> jsval list \<Rightarrow> error + jsval"

fun typeof :: "jsval \<Rightarrow> string" where
  "typeof Undefined = ''undefined''"
| "typeof Null = ''object''"
| "typeof (Bool b) = ''boolean''"
| "typeof (Num n) = ''number''"
| "typeof NaN = ''number''"
| "typeof (Str s) = ''string''"
| "typeof (Arr xs) = ''object''"
| "typeof (Obj kvs) = ''object''"
| "typeof (Fun c) = ''function''"

fun truthy :: "jsval \<Rightarrow> bool" where
  "truthy Undefined = False"
| "truthy Null = False"
| "truthy (Bool b) = b"
| "truthy (Num n) = (n \<noteq> 0)"
| "truthy NaN = False"
| "truthy (Str s) = (s \<noteq> [])"
| "truthy (Arr xs) = True"
| "truthy (Obj kvs) = True"
| "truthy (Fun c) = True"

fun isArray :: "jsval \<Rightarrow> bool" where
  "isArray (Arr xs) = True"
| "isArray v = False"

definition digit_char :: "nat \<Rightarrow> char" where
  "digit_char d = ''0123456789'' ! d"

fun show_nat :: "nat \<Rightarrow> string" where
  "show_nat n = (if n < 10 then [digit_char n] else show_nat (n div 10) @ [digit_char (n mod 10)])"

declare show_nat.simps [simp del]

text \<open>Property access \<^verbatim>\<open>a[b]\<close> with a string key.\<close>

definition index_of_key :: "nat \<Rightarrow> string \<Rightarrow> nat option" where
  "index_of_key n k = (case filter (\<lambda>i. show_nat i = k) [0..<n] of [] \<Rightarrow> None | i # _ \<Rightarrow> Some i)"

fun getProp :: "jsval \<Rightarrow> string \<Rightarrow> jsval" where
  "getProp (Obj kvs) k = (case map_of kvs k of None \<Rightarrow> Undefined | Some v \<Rightarrow> v)"
| "getProp (Arr xs) k =
     (if k = ''length'' then Num (int (length xs))
      else (case index_of_key (length xs) k of None \<Rightarrow> Undefined | Some i \<Rightarrow> xs ! i))"
| "getProp (Str s) k =
     (if k = ''length'' then Num (int (length s))
      else (case index_of_key (length s) k of None \<Rightarrow> Undefined | Some i \<Rightarrow> Str [s ! i]))"
| "getProp (Fun c) k = (if k = ''length'' then Num (int (flen c)) else Undefined)"
| "getProp v k = Undefined"

text \<open>Assignment \<^verbatim>\<open>o[k] = v\<close> on the properties of an object: an existing key keeps
  its place, a new key goes last.\<close>

fun setProp :: "(string \<times> jsval) list \<Rightarrow> string \<Rightarrow> jsval \<Rightarrow> (string \<times> jsval) list" where
  "setProp [] k v = [(k, v)]"
| "setProp ((k', v') # kvs) k v = (if k' = k then (k, v) # kvs else (k', v') # setProp kvs k v)"

section \<open>Strings: slice, split, join\<close>

definition slice :: "string \<Rightarrow> int \<Rightarrow> int \<Rightarrow> string" where
  "slice s b e =
     (let n = int (length s);
          from = (if b < 0 then max (n + b) 0 else min b n);
          to = (if e < 0 then max (n + e) 0 else min e n)
      in take (nat (to - from)) (drop (nat from) s))"

fun split :: "char \<Rightarrow> string \<Rightarrow> string list" where
  "split c [] = [[]]"
| "split c (x # xs) =
     (if x = c then [] # split c xs
      else (case split c xs of [] \<Rightarrow> [[x]] | y # ys \<Rightarrow> (x # y) # ys))"

fun join :: "string \<Rightarrow> string list \<Rightarrow> string" where
  "join sep [] = []"
| "join sep [x] = x"
| "join sep (x # y # ys) = x @ sep @ join sep (y # ys)"

text \<open>Array destructuring \<^verbatim>\<open>const [a, b, c] = elems\<close>: a missing position is
  \<^verbatim>\<open>undefined\<close>.\<close>

definition elem_at :: "string list \<Rightarrow> nat \<Rightarrow> jsval" where
  "elem_at xs i = (if i < length xs then Str (xs ! i) else Undefined)"

section \<open>Regular expressions\<close>

text \<open>
  \<^verbatim>\<open>isShortHand\<close> tests its argument against an anchored regular expression. The
  pattern is kept as a term and matched by derivatives.
\<close>

datatype rexp =
    Empty
  | Eps
  | Chr char
  | NoneOf "char list"
  | Alt rexp rexp
  | Cat rexp rexp
  | Star rexp

fun nullable :: "rexp \<Rightarrow> bool" where
  "nullable Empty = False"
| "nullable Eps = True"
| "nullable (Chr c) = False"
| "nullable (NoneOf cs) = False"
| "nullable (Alt r s) = (nullable r \<or> nullable s)"
| "nullable (Cat r s) = (nullable r \<and> nullable s)"
| "nullable (Star r) = True"

fun deriv :: "char \<Rightarrow> rexp \<Rightarrow> rexp" where
  "deriv a Empty = Empty"
| "deriv a Eps = Empty"
| "deriv a (Chr c) = (if a = c then Eps else Empty)"
| "deriv a (NoneOf cs) = (if a \<in> set cs then Empty else Eps)"
| "deriv a (Alt r s) = Alt (deriv a r) (deriv a s)"
| "deriv a (Cat r s) =
     (if nullable r then Alt (Cat (deriv a r) s) (deriv a s) else Cat (deriv a r) s)"
| "deriv a (Star r) = Cat (deriv a r) (Star r)"

fun matches :: "rexp \<Rightarrow> string \<Rightarrow> bool" where
  "matches r [] = nullable r"
| "matches r (a # as) = matches (deriv a r) as"

fun lit :: "string \<Rightarrow> rexp" where
  "lit [] = Eps"
| "lit (c # cs) = Cat (Chr c) (lit cs)"

definition Plus :: "rexp \<Rightarrow> rexp" where
  "Plus r = Cat r (Star r)"

section \<open>The descriptor parser\<close>

definition newline :: char where
  "newline = CHR 0x0A"

text \<open>\<^verbatim>\<open>/^\{[^;\n]{1,}(|;|;\[[^\n]*\])(|;|;(true|false))\}$/\<close>\<close>

definition shortHandPattern :: rexp where
  "shortHandPattern =
     Cat (Chr CHR ''{'')
    (Cat (Plus (NoneOf [CHR '';'', newline]))
    (Cat (Alt Eps (Alt (Chr CHR '';'')
                       (Cat (Chr CHR '';'') (Cat (Chr CHR ''['')
                         (Cat (Star (NoneOf [newline])) (Chr CHR '']''))))))
    (Cat (Alt Eps (Alt (Chr CHR '';'')
                       (Cat (Chr CHR '';'') (Alt (lit ''true'') (lit ''false'')))))
         (Chr CHR ''}''))))"

fun isShortHand :: "jsval \<Rightarrow> bool" where
  "isShortHand (Str s) = matches shortHandPattern s"
| "isShortHand v = False"

definition isValidPathObject :: "jsval \<Rightarrow> bool" where
  "isValidPathObject obj \<longleftrightarrow>
     truthy obj
     \<and> truthy (getProp obj ''path'')
     \<and> typeof (getProp obj ''path'') = ''string''
     \<and> (typeof (getProp obj ''call'') = ''boolean''
        \<or> getProp obj ''call'' = Undefined \<or> getProp obj ''call'' = Null)
     \<and> ((typeof (getProp obj ''parameters'') = ''object'' \<and> isArray (getProp obj ''parameters''))
        \<or> getProp obj ''parameters'' = Undefined)"

text \<open>The object spread \<^verbatim>\<open>{ ...obj }\<close>: the own properties of \<open>obj\<close>.\<close>

fun ownProps :: "jsval \<Rightarrow> (string \<times> jsval) list" where
  "ownProps (Obj kvs) = kvs"
| "ownProps v = []"

definition parseCall :: "jsval \<Rightarrow> jsval" where
  "parseCall c = (if c = Str ''true'' \<or> c = Str ''false'' then Bool (c = Str ''true'') else Undefined)"

definition parseShortHand :: "(string \<Rightarrow> jsval option) \<Rightarrow> string \<Rightarrow> error + jsval" where
  "parseShortHand json_parse s =
     (let elems = split CHR '';'' (slice s 1 (- 1));
          path = elem_at elems 0;
          params = elem_at elems 1;
          call = elem_at elems 2
      in case (case params of
                 Str p \<Rightarrow> (if p \<noteq> [] then
                              (case json_parse p of None \<Rightarrow> Inl (SyntaxError p) | Some v \<Rightarrow> Inr v)
                            else Inr Undefined)
               | _ \<Rightarrow> Inr Undefined) of
           Inl e \<Rightarrow> Inl e
         | Inr parameters \<Rightarrow>
             Inr (Obj [(''path'', path), (''parameters'', parameters), (''call'', parseCall call)]))"

definition parsePathObject :: "host \<Rightarrow> jsval \<Rightarrow> error + jsval" where
  "parsePathObject h obj =
     (if isValidPathObject obj then Inr (Obj (setProp (ownProps obj) ''supportsNested'' (Bool True)))
      else if isShortHand obj then (case obj of Str s \<Rightarrow> parseShortHand (JSON_parse h) s | _ \<Rightarrow> Inr (Obj []))
      else Inr (Obj []))"

section \<open>The resolution engine\<close>

definition isCallable :: "jsval \<Rightarrow> bool" where
  "isCallable item \<longleftrightarrow> typeof item = ''function''"

definition isFunction :: "callable \<Rightarrow> bool" where
  "isFunction item =
     (let propertyNames = ownNames item
      in ''prototype'' \<notin> set propertyNames \<or> ''arguments'' \<in> set propertyNames)"

definition tryResolveDotPath :: "jsval \<Rightarrow> jsval \<Rightarrow> jsval" where
  "tryResolveDotPath dotPath obj =
     (case dotPath of
        Str p \<Rightarrow> foldl (\<lambda>a b. if truthy a then getProp a b else Undefined) obj (split CHR ''.'' p)
      | _ \<Rightarrow> Undefined)"

definition getDef :: "jsval \<Rightarrow> jsval \<Rightarrow> jsval" where
  "getDef obj def = (if obj = Undefined then def else obj)"

text \<open>\<^verbatim>\<open>a || b\<close>\<close>

definition or_else :: "jsval \<Rightarrow> jsval \<Rightarrow> jsval" where
  "or_else a b = (if truthy a then a else b)"

definition requiredLength :: "jsval \<Rightarrow> jsval" where
  "requiredLength resolved =
     (case resolved of
        Fun c \<Rightarrow> (if isFunction c then Num (int (flen c)) else Num (int (ctorLen c)))
      | _ \<Rightarrow> Undefined)"

definition providedLength :: "jsval \<Rightarrow> jsval" where
  "providedLength obj = getProp (or_else (getProp obj ''parameters'') (Arr [])) ''length''"

definition pathObjectExpressesSymbol :: "jsval \<Rightarrow> jsval \<Rightarrow> error + bool" where
  "pathObjectExpressesSymbol obj resolved =
     (if resolved = Undefined then Inl (NotAccessible (or_else (getProp obj ''path'') obj))
      else if \<not> isCallable resolved \<and> truthy (getDef (getProp obj ''call'') (Bool False))
        then Inl (NotCallable (or_else (getProp obj ''path'') obj))
      else if isCallable resolved \<and> truthy (getDef (getProp obj ''call'') (Bool False))
              \<and> truthy (getDef (getProp obj ''call'') (Bool True))
              \<and> providedLength obj \<noteq> requiredLength resolved
        then Inl (InvalidParameterCount (or_else (getProp obj ''path'') obj)
                    (providedLength obj) (requiredLength resolved))
      else Inr True)"

text \<open>
  The deferred accessor \<^verbatim>\<open>getReference\<close> is one of three closures; each is a
  constructor here, and \<open>getReference\<close> runs it.
\<close>

datatype reference =
    AsResolved jsval
  | CallFunction callable "jsval list"
  | Instantiate callable "jsval list"

fun getReference :: "host \<Rightarrow> reference \<Rightarrow> error + jsval" where
  "getReference h (AsResolved resolved) = Inr resolved"
| "getReference h (CallFunction c args) = call_fn h c args"
| "getReference h (Instantiate c args) = construct h c args"

text \<open>The spread \<^verbatim>\<open>...(obj.parameters || [])\<close> of an array into an argument list.\<close>

fun spreadArgs :: "jsval \<Rightarrow> jsval list" where
  "spreadArgs (Arr xs) = xs"
| "spreadArgs v = []"

fun invocation :: "jsval \<Rightarrow> jsval \<Rightarrow> reference option" where
  "invocation (Fun c) parameters =
     (if isFunction c then Some (CallFunction c (spreadArgs (or_else parameters (Arr []))))
      else Some (Instantiate c (spreadArgs (or_else parameters (Arr [])))))"
| "invocation v parameters = None"

fun lengthPositive :: "jsval \<Rightarrow> bool" where
  "lengthPositive (Num n) = (n > 0)"
| "lengthPositive v = False"

section \<open>The tree walker\<close>

datatype pathElem = Key string | Index nat

fun elemString :: "pathElem \<Rightarrow> string" where
  "elemString (Key k) = k"
| "elemString (Index i) = show_nat i"

definition joinPath :: "pathElem list \<Rightarrow> string" where
  "joinPath currentPath = join ''.'' (map elemString currentPath)"

text \<open>
  \<open>fill\<close> and \<open>tryMakeReferenceable\<close> call each other; the loops of \<open>fill\<close> over the
  elements of an array and over the entries of a mapping are \<open>fillArray\<close> and
  \<open>fillEntries\<close>. Arrays and objects are values here, so the assignment
  \<^verbatim>\<open>input[i] = ...\<close> shows as the rebuilt list; the store in which the array is
  updated in place is modelled further below.
\<close>


function (sequential)
    fill :: "host \<Rightarrow> jsval \<Rightarrow> jsval \<Rightarrow> string list \<Rightarrow> pathElem list \<Rightarrow> error + jsval"
and tryMakeReferenceable :: "host \<Rightarrow> jsval \<Rightarrow> jsval \<Rightarrow> jsval \<Rightarrow> error + reference option"
and fillArray :: "host \<Rightarrow> jsval list \<Rightarrow> nat \<Rightarrow> jsval \<Rightarrow> string list \<Rightarrow> pathElem list \<Rightarrow> error + jsval list"
and fillEntries :: "host \<Rightarrow> (string \<times> jsval) list \<Rightarrow> jsval \<Rightarrow> string list \<Rightarrow> pathElem list
      \<Rightarrow> error + (string \<times> jsval) list"
where
  "fill h input data ignoredPaths currentPath =
     (if typeof input \<noteq> ''string'' \<and> typeof input \<noteq> ''object'' then Inr input
      else
        (case parsePathObject h input of
           Inl e \<Rightarrow> Inl e
         | Inr parsed \<Rightarrow>
            (case tryMakeReferenceable h parsed (tryResolveDotPath (getProp parsed ''path'') data) data of
               Inl e \<Rightarrow> Inl e
             | Inr (Some getRef) \<Rightarrow> getReference h getRef
             | Inr None \<Rightarrow>
                (if typeof input = ''string'' then Inr input
                 else
                   (case input of
                      Arr xs \<Rightarrow>
                        (case fillArray h xs 0 data ignoredPaths currentPath of
                           Inl e \<Rightarrow> Inl e
                         | Inr ys \<Rightarrow> Inr (Arr ys))
                    | Obj kvs \<Rightarrow>
                        (case fillEntries h kvs data ignoredPaths currentPath of
                           Inl e \<Rightarrow> Inl e
                         | Inr entries \<Rightarrow> Inr (Obj entries))
                    | _ \<Rightarrow> Inl TypeError)))))"
| "tryMakeReferenceable h obj resolved data =
     (if \<not> isValidPathObject obj then Inr None
      else
        (case pathObjectExpressesSymbol obj resolved of
           Inl e \<Rightarrow> Inl e
         | Inr ok \<Rightarrow>
            (if \<not> ok then Inr None
             else if \<not> isCallable resolved then Inr (Some (AsResolved resolved))
             else if \<not> truthy (getDef (getProp obj ''call'') (Bool True))
               then Inr (Some (AsResolved resolved))
             else
               (case (if truthy (getProp obj ''supportsNested'')
                         \<and> truthy (getProp obj ''parameters'')
                         \<and> lengthPositive (getProp (getProp obj ''parameters'') ''length'')
                      then fill h (getProp obj ''parameters'') data [] []
                      else Inr (getProp obj ''parameters'')) of
                  Inl e \<Rightarrow> Inl e
                | Inr parameters \<Rightarrow> Inr (invocation resolved parameters)))))"
| "fillArray h [] idx data ignoredPaths currentPath = Inr []"
| "fillArray h (e # es) idx data ignoredPaths currentPath =
     (case (if joinPath (currentPath @ [Index idx]) \<notin> set ignoredPaths
            then fill h e data ignoredPaths currentPath
            else Inr e) of
        Inl err \<Rightarrow> Inl err
      | Inr res \<Rightarrow>
         (case fillArray h es (Suc idx) data ignoredPaths currentPath of
            Inl err \<Rightarrow> Inl err
          | Inr rest \<Rightarrow> Inr (res # rest)))"
| "fillEntries h [] data ignoredPaths currentPath = Inr []"
| "fillEntries h ((k, v) # kvs) data ignoredPaths currentPath =
     (case (if joinPath (currentPath @ [Key k]) \<notin> set ignoredPaths
            then
              (case parsePathObject h v of
                 Inl err \<Rightarrow> Inl err
               | Inr parsed \<Rightarrow>
                  (case tryMakeReferenceable h parsed
                          (tryResolveDotPath (or_else (getProp parsed ''path'') v) data) data of
                     Inl err \<Rightarrow> Inl err
                   | Inr (Some getRef) \<Rightarrow> getReference h getRef
                   | Inr None \<Rightarrow> fill h v data ignoredPaths (currentPath @ [Key k])))
            else Inr v) of
        Inl err \<Rightarrow> Inl err
      | Inr res \<Rightarrow>
         (case fillEntries h kvs data ignoredPaths currentPath of
            Inl err \<Rightarrow> Inl err
          | Inr rest \<Rightarrow> Inr ((k, res) # rest)))"
  by pat_completeness auto

text \<open>
  Termination: the only call from \<open>tryMakeReferenceable\<close> back into \<open>fill\<close> is on the
  \<^verbatim>\<open>parameters\<close> of a descriptor marked \<^verbatim>\<open>supportsNested\<close>, and
  \<open>parsePathObject\<close> sets that mark only on a copy of its argument, whose parameters are
  a part of the argument.
\<close>

lemma map_of_setProp: "map_of (setProp kvs k v) k' = (if k' = k then Some v else map_of kvs k')"
  by (induction kvs) auto

lemma size_map_of: "map_of kvs k = Some v \<Longrightarrow> size v < size_list (size_prod (\<lambda>_. 0) size) kvs"
  by (induction kvs) (auto split: if_splits)

lemma size_getProp_Obj: "size (getProp (Obj kvs) k) < size (Obj kvs)"
  by (auto split: option.splits dest: size_map_of)

lemma digit_char_digit: "d < 10 \<Longrightarrow> digit_char d \<in> set ''0123456789''"
  by (simp add: digit_char_def del: set_simps)

lemma show_nat_digits: "c \<in> set (show_nat n) \<Longrightarrow> c \<in> set ''0123456789''"
proof (induction n rule: show_nat.induct)
  case (1 n)
  show ?case
  proof (cases "n < 10")
    case True
    with "1.prems" show ?thesis
      using digit_char_digit [of n] by (simp add: show_nat.simps [of n])
  next
    case False
    with "1.prems" "1.IH" show ?thesis
      using digit_char_digit [of "n mod 10"] by (auto simp: show_nat.simps [of n])
  qed
qed

lemma index_of_key_Some: "index_of_key n k = Some i \<Longrightarrow> k = show_nat i \<and> i < n"
proof -
  assume a: "index_of_key n k = Some i"
  then obtain js where "filter (\<lambda>i. show_nat i = k) [0..<n] = i # js"
    by (auto simp: index_of_key_def split: list.splits)
  then have "i \<in> set (filter (\<lambda>i. show_nat i = k) [0..<n])" by simp
  then show ?thesis by auto
qed

lemma index_of_key_nondigit:
  "c \<in> set k \<Longrightarrow> c \<notin> set ''0123456789'' \<Longrightarrow> index_of_key n k = None"
  using index_of_key_Some show_nat_digits by (cases "index_of_key n k") blast+

lemma index_of_key_names [simp]:
  "index_of_key n ''path'' = None"
  "index_of_key n ''call'' = None"
  "index_of_key n ''parameters'' = None"
  "index_of_key n ''supportsNested'' = None"
     apply (rule index_of_key_nondigit [where c = "CHR ''a''"]; simp)
    apply (rule index_of_key_nondigit [where c = "CHR ''a''"]; simp)
   apply (rule index_of_key_nondigit [where c = "CHR ''a''"]; simp)
  apply (rule index_of_key_nondigit [where c = "CHR ''s''"]; simp)
  done

lemma parseShortHand_not_nested:
  "parseShortHand json_parse s = Inr parsed \<Longrightarrow> getProp parsed ''supportsNested'' = Undefined"
  by (auto simp: parseShortHand_def Let_def split: sum.splits)

lemma parsePathObject_nested_size:
  assumes "parsePathObject h v = Inr parsed" "truthy (getProp parsed ''supportsNested'')"
  shows "size (getProp parsed ''parameters'') < size v"
proof (cases "isValidPathObject v")
  case True
  then obtain kvs where v: "v = Obj kvs"
    by (cases v) (auto simp: isValidPathObject_def)
  with True assms have "parsed = Obj (setProp kvs ''supportsNested'' (Bool True))"
    by (simp add: parsePathObject_def)
  then have "getProp parsed ''parameters'' = getProp (Obj kvs) ''parameters''"
    by (simp add: map_of_setProp)
  then show ?thesis
    using size_getProp_Obj [of kvs "''parameters''"] v by simp
next
  case False
  with assms(1) have "getProp parsed ''supportsNested'' = Undefined"
    by (auto simp: parsePathObject_def dest: parseShortHand_not_nested split: if_splits jsval.splits)
  with assms(2) show ?thesis by simp
qed

termination fill
  apply (relation "measure (\<lambda>x. case x of
      Inl (Inl (h, input, r)) \<Rightarrow> 2 * size input + 1
    | Inl (Inr (h, obj, r)) \<Rightarrow>
        (if truthy (getProp obj ''supportsNested'') then 2 * size (getProp obj ''parameters'') + 2 else 0)
    | Inr (Inl (h, es, r)) \<Rightarrow> 2 * size_list size es + 1
    | Inr (Inr (h, kvs, r)) \<Rightarrow> 2 * size_list (size_prod (\<lambda>_. 0) size) kvs + 1)")
         apply simp
        apply (auto dest: parsePathObject_nested_size)
  done

declare fill.simps [simp del] tryMakeReferenceable.simps [simp del]

section \<open>A host for the examples\<close>

text \<open>
  The examples of the specification need a concrete host. \<open>json_decode\<close> reads the
  fragment of JSON made of arrays, objects, strings without escape sequences, integers and
  the three literals; it stands for \<^verbatim>\<open>JSON.parse\<close> on the texts of the examples.
\<close>

definition is_ws :: "char \<Rightarrow> bool" where
  "is_ws c \<longleftrightarrow> c = CHR '' '' \<or> c = CHR 0x09 \<or> c = CHR 0x0A \<or> c = CHR 0x0D"

definition is_digit :: "char \<Rightarrow> bool" where
  "is_digit c \<longleftrightarrow> c \<in> set ''0123456789''"

definition digit_val :: "char \<Rightarrow> nat" where
  "digit_val c = (case index_of_key 10 [c] of None \<Rightarrow> 0 | Some d \<Rightarrow> d)"

definition digits_val :: "string \<Rightarrow> nat" where
  "digits_val s = foldl (\<lambda>n c. 10 * n + digit_val c) 0 s"

fun strip_prefix :: "string \<Rightarrow> string \<Rightarrow> string option" where
  "strip_prefix [] s = Some s"
| "strip_prefix (p # ps) [] = None"
| "strip_prefix (p # ps) (c # cs) = (if p = c then strip_prefix ps cs else None)"

definition json_number :: "string \<Rightarrow> (jsval \<times> string) option" where
  "json_number s =
     (let neg = (case s of [] \<Rightarrow> False | c # _ \<Rightarrow> c = CHR ''-'');
          t = (if neg then tl s else s);
          ds = takeWhile is_digit t;
          r = dropWhile is_digit t
      in if ds = [] \<or> (length ds > 1 \<and> hd ds = CHR ''0'') then None
         else if r \<noteq> [] \<and> hd r \<in> set ''.eE'' then None
         else Some (Num (if neg then - int (digits_val ds) else int (digits_val ds)), r))"

definition json_string :: "string \<Rightarrow> (string \<times> string) option" where
  "json_string s =
     (let body = takeWhile (\<lambda>c. c \<noteq> CHR 0x22) s; r = dropWhile (\<lambda>c. c \<noteq> CHR 0x22) s
      in if r = [] \<or> CHR 0x5C \<in> set body \<or> list_ex (\<lambda>c. of_char c < (32 :: nat)) body then None
         else Some (body, tl r))"

text \<open>A key given twice keeps its first place and its last value.\<close>

definition or_undefined :: "jsval option \<Rightarrow> jsval \<Rightarrow> jsval" where
  "or_undefined later v = (case later of None \<Rightarrow> v | Some v' \<Rightarrow> v')"

fun json_value :: "nat \<Rightarrow> string \<Rightarrow> (jsval \<times> string) option"
and json_elems :: "nat \<Rightarrow> string \<Rightarrow> (jsval list \<times> string) option"
and json_members :: "nat \<Rightarrow> string \<Rightarrow> ((string \<times> jsval) list \<times> string) option"
where
  "json_value 0 s = None"
| "json_value (Suc n) s =
     (case dropWhile is_ws s of
        [] \<Rightarrow> None
      | c # r \<Rightarrow>
         if c = CHR ''['' then
           (case dropWhile is_ws r of
              [] \<Rightarrow> None
            | c' # r' \<Rightarrow>
               if c' = CHR '']'' then Some (Arr [], r')
               else (case json_elems n r of None \<Rightarrow> None | Some (vs, r'') \<Rightarrow> Some (Arr vs, r'')))
         else if c = CHR ''{'' then
           (case dropWhile is_ws r of
              [] \<Rightarrow> None
            | c' # r' \<Rightarrow>
               if c' = CHR ''}'' then Some (Obj [], r')
               else (case json_members n r of None \<Rightarrow> None | Some (kvs, r'') \<Rightarrow> Some (Obj kvs, r'')))
         else if c = CHR 0x22 then
           (case json_string r of None \<Rightarrow> None | Some (str, r') \<Rightarrow> Some (Str str, r'))
         else if c = CHR ''t'' then map_option (Pair (Bool True)) (strip_prefix ''rue'' r)
         else if c = CHR ''f'' then map_option (Pair (Bool False)) (strip_prefix ''alse'' r)
         else if c = CHR ''n'' then map_option (Pair Null) (strip_prefix ''ull'' r)
         else json_number (c # r))"
| "json_elems 0 s = None"
| "json_elems (Suc n) s =
     (case json_value n s of
        None \<Rightarrow> None
      | Some (v, r) \<Rightarrow>
         (case dropWhile is_ws r of
            [] \<Rightarrow> None
          | c # r' \<Rightarrow>
             if c = CHR '']'' then Some ([v], r')
             else if c = CHR '','' then
               (case json_elems n r' of None \<Rightarrow> None | Some (vs, r'') \<Rightarrow> Some (v # vs, r''))
             else None))"
| "json_members 0 s = None"
| "json_members (Suc n) s =
     (case dropWhile is_ws s of
        [] \<Rightarrow> None
      | q # r0 \<Rightarrow>
         if q \<noteq> CHR 0x22 then None
         else
           (case json_string r0 of
              None \<Rightarrow> None
            | Some (k, r1) \<Rightarrow>
               (case dropWhile is_ws r1 of
                  [] \<Rightarrow> None
                | colon # r2 \<Rightarrow>
                   if colon \<noteq> CHR '':'' then None
                   else
                     (case json_value n r2 of
                        None \<Rightarrow> None
                      | Some (v, r) \<Rightarrow>
                         (case dropWhile is_ws r of
                            [] \<Rightarrow> None
                          | c # r' \<Rightarrow>
                             if c = CHR ''}'' then Some ([(k, v)], r')
                             else if c = CHR '','' then
                               (case json_members n r' of
                                  None \<Rightarrow> None
                                | Some (kvs, r'') \<Rightarrow>
                                    Some ((k, or_undefined (map_of kvs k) v)
                                            # filter (\<lambda>kv. fst kv \<noteq> k) kvs, r''))
                             else None)))))"

definition json_decode :: "string \<Rightarrow> jsval option" where
  "json_decode s =
     (case json_value (2 * length s + 2) s of
        None \<Rightarrow> None
      | Some (v, r) \<Rightarrow> if dropWhile is_ws r = [] then Some v else None)"

text \<open>
  The functions of the specification's examples, with the inputs of the examples in their
  domain; an argument list outside it is reported as \<open>HostError\<close>.
  \<^item> \<open>f_add\<close> is \<^verbatim>\<open>(x, y) => x + y\<close>,
  \<^item> \<open>f_one\<close> is \<^verbatim>\<open>() => 1\<close>,
  \<^item> \<open>f_inner\<close> is \<^verbatim>\<open>() => "7"\<close>,
  \<^item> \<open>f_outer\<close> is \<^verbatim>\<open>(n) => Number(n) + 1\<close>,
  \<^item> \<open>f_echo\<close> is \<^verbatim>\<open>(x) => x\<close>,
  \<^item> \<open>c_box\<close> is \<^verbatim>\<open>class { constructor(n) { this.n = n; } }\<close>.
\<close>

definition f_add :: callable where "f_add = Callable 0 [''length'', ''name''] 2 0"
definition f_one :: callable where "f_one = Callable 1 [''length'', ''name''] 0 0"
definition f_inner :: callable where "f_inner = Callable 2 [''length'', ''name''] 0 0"
definition f_outer :: callable where "f_outer = Callable 3 [''length'', ''name''] 1 0"
definition f_echo :: callable where "f_echo = Callable 4 [''length'', ''name''] 1 0"
definition c_box :: callable where "c_box = Callable 5 [''length'', ''name'', ''prototype''] 1 1"

definition demo_call :: "callable \<Rightarrow> jsval list \<Rightarrow> error + jsval" where
  "demo_call c args =
     (if fid c = 0 then
        (case args of
           Num a # Num b # _ \<Rightarrow> Inr (Num (a + b))
         | [Num a] \<Rightarrow> Inr NaN
         | _ \<Rightarrow> Inl (HostError ''f_add''))
      else if fid c = 1 then Inr (Num 1)
      else if fid c = 2 then Inr (Str ''7'')
      else if fid c = 3 then
        (case args of
           Num n # _ \<Rightarrow> Inr (Num (n + 1))
         | Str s # _ \<Rightarrow>
             (if s \<noteq> [] \<and> list_all is_digit s then Inr (Num (int (digits_val s) + 1))
              else Inl (HostError ''f_outer''))
         | _ \<Rightarrow> Inl (HostError ''f_outer''))
      else if fid c = 4 then
        (case args of [] \<Rightarrow> Inr Undefined | x # _ \<Rightarrow> Inr x)
      else Inl (HostError ''not a function''))"

definition demo_construct :: "callable \<Rightarrow> jsval list \<Rightarrow> error + jsval" where
  "demo_construct c args =
     (if fid c = 5 then
        (case args of [] \<Rightarrow> Inr (Obj [(''n'', Undefined)]) | n # _ \<Rightarrow> Inr (Obj [(''n'', n)]))
      else Inl (HostError ''not a constructor''))"

definition demo_host :: host where
  "demo_host = \<lparr> JSON_parse = json_decode, call_fn = demo_call, construct = demo_construct \<rparr>"

section \<open>Plain values\<close>

lemma parsePathObject_Null: "parsePathObject h Null = Inr (Obj [])"
  by (simp add: parsePathObject_def isValidPathObject_def)

lemma tryMakeReferenceable_empty: "tryMakeReferenceable h (Obj []) resolved data = Inr None"
  by (simp add: tryMakeReferenceable.simps isValidPathObject_def)

lemma fill_plain:
  "typeof v \<noteq> ''string'' \<and> typeof v \<noteq> ''object'' \<longrightarrow> fill h v data ignoredPaths currentPath = Inr v"
  by (simp add: fill.simps)

section \<open>Structured descriptors\<close>

lemma getProp_setProp:
  "getProp (Obj (setProp kvs k v)) k' = (if k' = k then v else getProp (Obj kvs) k')"
  by (simp add: map_of_setProp)

lemma setProp_idem: "setProp (setProp kvs k v) k v = setProp kvs k v"
  by (induction kvs) auto

lemma keys_setProp:
  "map fst (setProp kvs k v) = (if k \<in> set (map fst kvs) then map fst kvs else map fst kvs @ [k])"
  by (induction kvs) force+

lemma isValidPathObject_Obj: "isValidPathObject d \<Longrightarrow> \<exists>kvs. d = Obj kvs"
  by (cases d) (auto simp: isValidPathObject_def)

lemma isValidPathObject_setProp:
  "isValidPathObject (Obj (setProp kvs ''supportsNested'' b)) = isValidPathObject (Obj kvs)"
  unfolding isValidPathObject_def getProp_setProp by simp

definition structured_example :: jsval where
  "structured_example =
     Obj [(''path'', Str ''a.b''), (''parameters'', Arr [Num 1, Num 2]), (''call'', Bool True)]"

text \<open>
  Claim C4, as amended. For every valid structured descriptor \<open>d\<close> (a mapping with a
  non-empty string \<^verbatim>\<open>path\<close>, an optional boolean \<^verbatim>\<open>call\<close> and an optional
  array \<^verbatim>\<open>parameters\<close>), \<open>parsePathObject\<close> returns a copy of \<open>d\<close> in which the field
  \<^verbatim>\<open>supportsNested\<close> is \<^verbatim>\<open>true\<close>: every other field reads as in \<open>d\<close>, the
  fields keep their order, \<^verbatim>\<open>supportsNested\<close> is the only field that may be added,
  and parsing the result again returns the result unchanged.
\<close>

theorem parsePathObject_structured:
  assumes "isValidPathObject d"
  shows "parsePathObject h d = Inr (Obj (setProp (ownProps d) ''supportsNested'' (Bool True)))
    \<and> (\<forall>r. parsePathObject h d = Inr r \<longrightarrow>
          getProp r ''supportsNested'' = Bool True
        \<and> (\<forall>k. k \<noteq> ''supportsNested'' \<longrightarrow> getProp r k = getProp d k)
        \<and> map fst (ownProps r) =
            (if ''supportsNested'' \<in> set (map fst (ownProps d)) then map fst (ownProps d)
             else map fst (ownProps d) @ [''supportsNested''])
        \<and> parsePathObject h r = Inr r)"
proof -
  from assms obtain kvs where d: "d = Obj kvs"
    using isValidPathObject_Obj by blast
  let ?r = "Obj (setProp kvs ''supportsNested'' (Bool True))"
  have p: "parsePathObject h d = Inr ?r"
    using assms d by (simp add: parsePathObject_def)
  have v: "isValidPathObject ?r"
    using assms d by (simp only: isValidPathObject_setProp)
  have again: "parsePathObject h ?r = Inr ?r"
    using v by (simp add: parsePathObject_def setProp_idem)
  have props: "\<forall>k. k \<noteq> ''supportsNested'' \<longrightarrow> getProp ?r k = getProp d k"
    unfolding d getProp_setProp by simp
  have mark: "getProp ?r ''supportsNested'' = Bool True"
    unfolding getProp_setProp by simp
  show ?thesis
    using p again props mark d by (simp add: keys_setProp)
qed

theorem parsePathObject_structured_witness:
  "isValidPathObject structured_example
   \<and> parsePathObject demo_host structured_example =
       Inr (Obj [(''path'', Str ''a.b''), (''parameters'', Arr [Num 1, Num 2]), (''call'', Bool True),
                 (''supportsNested'', Bool True)])"
proof -
  have v: "isValidPathObject structured_example"
    by (simp add: structured_example_def isValidPathObject_def)
  from parsePathObject_structured [OF v, of demo_host] v show ?thesis
    by (simp add: structured_example_def)
qed

text \<open>
  Claim C4 as stated fails: \<^verbatim>\<open>parsePathObject({path:"a.b", parameters:[1,2], call:true})\<close>
  is not the descriptor it was given, it carries the extra field \<^verbatim>\<open>supportsNested\<close>.
\<close>

theorem parsePathObject_structured_adds_field:
  "parsePathObject demo_host structured_example \<noteq> Inr structured_example
   \<and> parsePathObject demo_host structured_example =
       Inr (Obj [(''path'', Str ''a.b''), (''parameters'', Arr [Num 1, Num 2]), (''call'', Bool True),
                 (''supportsNested'', Bool True)])"
  by (simp add: parsePathObject_def structured_example_def isValidPathObject_def)

section \<open>The language of a pattern\<close>

text \<open>
  The words a pattern stands for, and the agreement of the derivative matcher with them:
  facts about \<open>isShortHand\<close> on strings of a given shape are proved on the language.
\<close>

inductive_set star :: "string set \<Rightarrow> string set" for A :: "string set" where
  star_nil: "[] \<in> star A"
| star_app: "u \<in> A \<Longrightarrow> v \<in> star A \<Longrightarrow> u @ v \<in> star A"

definition conc :: "string set \<Rightarrow> string set \<Rightarrow> string set" where
  "conc A B = {u @ v | u v. u \<in> A \<and> v \<in> B}"

fun lang :: "rexp \<Rightarrow> string set" where
  "lang Empty = {}"
| "lang Eps = {[]}"
| "lang (Chr c) = {[c]}"
| "lang (NoneOf cs) = {[c] | c. c \<notin> set cs}"
| "lang (Alt r s) = lang r \<union> lang s"
| "lang (Cat r s) = conc (lang r) (lang s)"
| "lang (Star r) = star (lang r)"

lemma conc_iff: "w \<in> conc A B \<longleftrightarrow> (\<exists>u v. w = u @ v \<and> u \<in> A \<and> v \<in> B)"
  by (auto simp: conc_def)

lemma nullable_lang: "nullable r \<longleftrightarrow> [] \<in> lang r"
  by (induction r) (auto simp: conc_iff intro: star_nil)

lemma cons_in_conc:
  "a # w \<in> conc A B \<longleftrightarrow>
     ([] \<in> A \<and> a # w \<in> B) \<or> (\<exists>u v. w = u @ v \<and> a # u \<in> A \<and> v \<in> B)"
proof
  assume "a # w \<in> conc A B"
  then obtain u v where uv: "a # w = u @ v" "u \<in> A" "v \<in> B"
    by (auto simp: conc_iff)
  show "([] \<in> A \<and> a # w \<in> B) \<or> (\<exists>u v. w = u @ v \<and> a # u \<in> A \<and> v \<in> B)"
  proof (cases u)
    case Nil
    with uv show ?thesis by simp
  next
    case (Cons b u')
    with uv have "w = u' @ v" "a # u' \<in> A" by auto
    with uv show ?thesis by blast
  qed
next
  assume "([] \<in> A \<and> a # w \<in> B) \<or> (\<exists>u v. w = u @ v \<and> a # u \<in> A \<and> v \<in> B)"
  then show "a # w \<in> conc A B"
  proof
    assume "[] \<in> A \<and> a # w \<in> B"
    then have "[] @ (a # w) \<in> conc A B" unfolding conc_iff by blast
    then show ?thesis by simp
  next
    assume "\<exists>u v. w = u @ v \<and> a # u \<in> A \<and> v \<in> B"
    then obtain u v where "w = u @ v" "a # u \<in> A" "v \<in> B" by blast
    then have "(a # u) @ v \<in> conc A B" unfolding conc_iff by blast
    with \<open>w = u @ v\<close> show ?thesis by simp
  qed
qed

lemma cons_in_star:
  "a # w \<in> star A \<longleftrightarrow> (\<exists>u v. w = u @ v \<and> a # u \<in> A \<and> v \<in> star A)"
proof
  assume "a # w \<in> star A"
  then show "\<exists>u v. w = u @ v \<and> a # u \<in> A \<and> v \<in> star A"
  proof (induction "a # w" rule: star.induct)
    case (star_app u v)
    show ?case
    proof (cases u)
      case Nil
      with star_app show ?thesis by simp
    next
      case (Cons b u')
      with star_app.hyps show ?thesis by auto
    qed
  qed
next
  assume "\<exists>u v. w = u @ v \<and> a # u \<in> A \<and> v \<in> star A"
  then obtain u v where "w = u @ v" "a # u \<in> A" "v \<in> star A" by blast
  then have "(a # u) @ v \<in> star A" by (intro star_app)
  with \<open>w = u @ v\<close> show "a # w \<in> star A" by simp
qed

lemma deriv_lang: "w \<in> lang (deriv a r) \<longleftrightarrow> a # w \<in> lang r"
proof (induction r arbitrary: w)
  case (Cat r s)
  then show ?case
    by (simp add: cons_in_conc nullable_lang) (auto simp: conc_iff)
next
  case (Star r)
  then show ?case
    by (simp add: cons_in_star) (auto simp: conc_iff)
qed auto

lemma matches_lang: "matches r s \<longleftrightarrow> s \<in> lang r"
  by (induction s arbitrary: r) (simp_all add: nullable_lang deriv_lang)


declare lang.simps [simp del]

lemma lang_EpsI: "[] \<in> lang Eps"
  by (simp add: lang.simps)

lemma lang_NoneOfI: "c \<notin> set cs \<Longrightarrow> [c] \<in> lang (NoneOf cs)"
  by (simp add: lang.simps)

lemma lang_AltI1: "w \<in> lang r \<Longrightarrow> w \<in> lang (Alt r s)"
  by (simp add: lang.simps)

lemma lang_AltI2: "w \<in> lang s \<Longrightarrow> w \<in> lang (Alt r s)"
  by (simp add: lang.simps)

lemma lang_CatI: "u \<in> lang r \<Longrightarrow> v \<in> lang s \<Longrightarrow> u @ v \<in> lang (Cat r s)"
  by (auto simp: lang.simps conc_iff)

lemma lang_ChrI: "v \<in> lang r \<Longrightarrow> c # v \<in> lang (Cat (Chr c) r)"
  using lang_CatI [of "[c]" "Chr c" v r] by (simp add: lang.simps)

lemma lang_Chr_lastI: "[c] \<in> lang (Chr c)"
  by (simp add: lang.simps)

lemma lang_StarI: "set w \<inter> set cs = {} \<Longrightarrow> w \<in> lang (Star (NoneOf cs))"
proof (induction w)
  case Nil
  show ?case by (simp add: lang.simps star_nil)
next
  case (Cons c w)
  then have "[c] \<in> lang (NoneOf cs)" "w \<in> star (lang (NoneOf cs))"
    by (auto simp: lang.simps)
  then have "[c] @ w \<in> star (lang (NoneOf cs))" by (rule star_app)
  then show ?case by (simp add: lang.simps)
qed

lemma lang_PlusI:
  assumes "w \<noteq> []" "set w \<inter> set cs = {}"
  shows "w \<in> lang (Plus (NoneOf cs))"
proof -
  from assms obtain c v where w: "w = c # v" by (cases w) auto
  with assms have "[c] \<in> lang (NoneOf cs)" "v \<in> lang (Star (NoneOf cs))"
    by (auto intro: lang_StarI lang_NoneOfI)
  then have "[c] @ v \<in> lang (Cat (NoneOf cs) (Star (NoneOf cs)))" by (rule lang_CatI)
  with w show ?thesis by (simp add: Plus_def)
qed

lemma lang_litI: "s \<in> lang (lit s)"
  by (induction s) (auto intro: lang_ChrI lang_EpsI)

definition pathText :: "string \<Rightarrow> bool" where
  "pathText p \<longleftrightarrow> p \<noteq> [] \<and> CHR '';'' \<notin> set p \<and> newline \<notin> set p"

definition paramsGroup :: "string \<Rightarrow> bool" where
  "paramsGroup g \<longleftrightarrow> g = [] \<or> g = '';'' \<or> (\<exists>m. g = '';['' @ m @ '']'' \<and> newline \<notin> set m)"

definition callGroup :: "string \<Rightarrow> bool" where
  "callGroup g \<longleftrightarrow> g = [] \<or> g = '';'' \<or> g = '';true'' \<or> g = '';false''"

lemma paramsGroup_lang:
  assumes "paramsGroup g"
  shows "g \<in> lang (Alt Eps (Alt (Chr CHR '';'')
                       (Cat (Chr CHR '';'') (Cat (Chr CHR ''['')
                         (Cat (Star (NoneOf [newline])) (Chr CHR '']''))))))"
proof -
  consider "g = []" | "g = '';''" | m where "g = '';['' @ m @ '']''" "newline \<notin> set m"
    using assms unfolding paramsGroup_def by blast
  then show ?thesis
  proof cases
    case 1
    then show ?thesis by (auto intro: lang_AltI1 lang_EpsI)
  next
    case 2
    then show ?thesis by (auto intro: lang_AltI2 lang_AltI1 lang_Chr_lastI)
  next
    case 3
    from 3(2) have "m \<in> lang (Star (NoneOf [newline]))"
      by (intro lang_StarI) simp
    then have "m @ '']'' \<in> lang (Cat (Star (NoneOf [newline])) (Chr CHR '']''))"
      by (intro lang_CatI lang_Chr_lastI)
    then have "CHR '';'' # CHR ''['' # (m @ '']'') \<in> lang (Cat (Chr CHR '';'') (Cat (Chr CHR ''['')
                         (Cat (Star (NoneOf [newline])) (Chr CHR '']''))))"
      by (intro lang_ChrI)
    with 3(1) show ?thesis
      by (auto intro: lang_AltI2)
  qed
qed

lemma callGroup_lang:
  assumes "callGroup g"
  shows "g \<in> lang (Alt Eps (Alt (Chr CHR '';'')
                       (Cat (Chr CHR '';'') (Alt (lit ''true'') (lit ''false'')))))"
proof -
  have t: "CHR '';'' # ''true'' \<in> lang (Cat (Chr CHR '';'') (Alt (lit ''true'') (lit ''false'')))"
    by (intro lang_ChrI lang_AltI1 lang_litI)
  have f: "CHR '';'' # ''false'' \<in> lang (Cat (Chr CHR '';'') (Alt (lit ''true'') (lit ''false'')))"
    by (intro lang_ChrI lang_AltI2 lang_litI)
  consider "g = []" | "g = '';''" | "g = '';true''" | "g = '';false''"
    using assms unfolding callGroup_def by blast
  then show ?thesis
  proof cases
    case 1
    then show ?thesis by (auto intro: lang_AltI1 lang_EpsI)
  next
    case 2
    then show ?thesis by (auto intro: lang_AltI2 lang_AltI1 lang_Chr_lastI)
  next
    case 3
    with t show ?thesis by (auto intro: lang_AltI2)
  next
    case 4
    with f show ?thesis by (auto intro: lang_AltI2)
  qed
qed

lemma shortHand_shape:
  assumes "pathText p" "paramsGroup g2" "callGroup g3"
  shows "isShortHand (Str (CHR ''{'' # p @ g2 @ g3 @ ''}''))"
proof -
  have "p \<in> lang (Plus (NoneOf [CHR '';'', newline]))"
    using assms(1) by (intro lang_PlusI) (auto simp: pathText_def)
  then have "CHR ''{'' # (p @ (g2 @ (g3 @ ''}''))) \<in> lang shortHandPattern"
    unfolding shortHandPattern_def
    by (intro lang_ChrI lang_CatI paramsGroup_lang [OF assms(2)] callGroup_lang [OF assms(3)]
        lang_Chr_lastI)
  then show ?thesis
    by (simp add: matches_lang)
qed

section \<open>Compact descriptors\<close>

lemma split_no_sep: "c \<notin> set p \<Longrightarrow> split c p = [p]"
  by (induction p) auto

lemma split_append_sep: "c \<notin> set p \<Longrightarrow> split c (p @ c # r) = p # split c r"
  by (induction p) auto

lemma slice_braces: "slice (CHR ''{'' # body @ ''}'') 1 (- 1) = body"
  by (simp add: slice_def Let_def)

lemma isValidPathObject_Str: "\<not> isValidPathObject (Str s)"
  by (simp add: isValidPathObject_def)

lemma parsePathObject_Str:
  "parsePathObject h (Str s) = (if isShortHand (Str s) then parseShortHand (JSON_parse h) s else Inr (Obj []))"
  by (simp add: parsePathObject_def isValidPathObject_Str)

definition arrayText :: "string \<Rightarrow> bool" where
  "arrayText t \<longleftrightarrow> 2 \<le> length t \<and> hd t = CHR ''['' \<and> last t = CHR '']''
     \<and> CHR '';'' \<notin> set t \<and> newline \<notin> set t"

lemma arrayText_paramsGroup: "arrayText t \<Longrightarrow> paramsGroup (CHR '';'' # t)"
proof -
  assume a: "arrayText t"
  then obtain x r where t: "t = x # r" "r \<noteq> []"
    by (cases t; cases "tl t") (auto simp: arrayText_def)
  with a have "r = butlast r @ '']''"
    using append_butlast_last_id [of r] by (simp add: arrayText_def)
  moreover from a t have "x = CHR ''[''" "newline \<notin> set (butlast r)"
    by (auto simp: arrayText_def dest: in_set_butlastD)
  ultimately have "t = ''['' @ butlast r @ '']''" "newline \<notin> set (butlast r)"
    using t by simp_all
  then show ?thesis
    unfolding paramsGroup_def by auto
qed

lemma parseShortHand_fields:
  assumes "CHR '';'' \<notin> set p" "CHR '';'' \<notin> set t" "CHR '';'' \<notin> set c" "t \<noteq> []"
    and "JSON_parse h t = Some v"
  shows "parseShortHand (JSON_parse h) (CHR ''{'' # p @ '';'' @ t @ '';'' @ c @ ''}'') =
           Inr (Obj [(''path'', Str p), (''parameters'', v), (''call'', parseCall (Str c))])"
    and "parseShortHand (JSON_parse h) (CHR ''{'' # p @ '';'' @ t @ ''}'') =
           Inr (Obj [(''path'', Str p), (''parameters'', v), (''call'', Undefined)])"
    and "parseShortHand (JSON_parse h) (CHR ''{'' # p @ '';;'' @ c @ ''}'') =
           Inr (Obj [(''path'', Str p), (''parameters'', Undefined), (''call'', parseCall (Str c))])"
    and "parseShortHand (JSON_parse h) (CHR ''{'' # p @ ''}'') =
           Inr (Obj [(''path'', Str p), (''parameters'', Undefined), (''call'', parseCall Undefined)])"
proof -
  have 1: "split CHR '';'' (p @ '';'' @ t @ '';'' @ c) = [p, t, c]"
    using assms(1-3) by (simp add: split_append_sep split_no_sep)
  have "slice (CHR ''{'' # (p @ '';'' @ t @ '';'' @ c) @ ''}'') 1 (- 1) = p @ '';'' @ t @ '';'' @ c"
    by (rule slice_braces)
  with 1 assms(4,5)
  show "parseShortHand (JSON_parse h) (CHR ''{'' # p @ '';'' @ t @ '';'' @ c @ ''}'') =
           Inr (Obj [(''path'', Str p), (''parameters'', v), (''call'', parseCall (Str c))])"
    by (simp add: parseShortHand_def elem_at_def)
  have 2: "split CHR '';'' (p @ '';'' @ t) = [p, t]"
    using assms(1-3) by (simp add: split_append_sep split_no_sep)
  have "slice (CHR ''{'' # (p @ '';'' @ t) @ ''}'') 1 (- 1) = p @ '';'' @ t"
    by (rule slice_braces)
  with 2 assms(4,5)
  show "parseShortHand (JSON_parse h) (CHR ''{'' # p @ '';'' @ t @ ''}'') =
           Inr (Obj [(''path'', Str p), (''parameters'', v), (''call'', Undefined)])"
    by (simp add: parseShortHand_def elem_at_def parseCall_def)
  have 3: "split CHR '';'' (p @ '';;'' @ c) = [p, [], c]"
    using assms(1-3) split_append_sep [of "CHR '';''" "[]" c]
    by (simp add: split_append_sep split_no_sep)
  have "slice (CHR ''{'' # (p @ '';;'' @ c) @ ''}'') 1 (- 1) = p @ '';;'' @ c"
    by (rule slice_braces)
  with 3
  show "parseShortHand (JSON_parse h) (CHR ''{'' # p @ '';;'' @ c @ ''}'') =
           Inr (Obj [(''path'', Str p), (''parameters'', Undefined), (''call'', parseCall (Str c))])"
    by (simp add: parseShortHand_def elem_at_def)
  have 4: "split CHR '';'' p = [p]"
    using assms(1) by (simp add: split_no_sep)
  have "slice (CHR ''{'' # p @ ''}'') 1 (- 1) = p"
    by (rule slice_braces)
  with 4
  show "parseShortHand (JSON_parse h) (CHR ''{'' # p @ ''}'') =
           Inr (Obj [(''path'', Str p), (''parameters'', Undefined), (''call'', parseCall Undefined)])"
    by (simp add: parseShortHand_def elem_at_def)
qed

text \<open>
  Claim C7. Parsing the compact string form decomposes the bracketed, semicolon-delimited
  fields by position into the path, the JSON-decoded parameters and the boolean call, and
  fields left out at the end stay unset. For every path text \<open>p\<close> (non-empty, without
  \<^verbatim>\<open>;\<close> and newline), every parameters text \<open>t\<close> in brackets (without \<^verbatim>\<open>;\<close>
  and newline) that \<^verbatim>\<open>JSON.parse\<close> decodes to \<open>v\<close>, and \<open>c\<close> one of
  \<^verbatim>\<open>true\<close>, \<^verbatim>\<open>false\<close>: \<^verbatim>\<open>{p;t;c}\<close> yields path \<open>p\<close>, parameters \<open>v\<close> and call
  \<open>c\<close> as a boolean; \<^verbatim>\<open>{p;t}\<close> leaves call \<^verbatim>\<open>undefined\<close>; \<^verbatim>\<open>{p;;c}\<close> leaves
  parameters \<^verbatim>\<open>undefined\<close>; \<^verbatim>\<open>{p}\<close> leaves both \<^verbatim>\<open>undefined\<close>. The witness is
  the example of the claim, \<^verbatim>\<open>'{a.b;[1,2];true}'\<close>.
\<close>

theorem parsePathObject_compact:
  assumes "pathText p" and "arrayText t" and "JSON_parse h t = Some v"
    and "c = ''true'' \<or> c = ''false''"
  shows "parsePathObject h (Str (''{'' @ p @ '';'' @ t @ '';'' @ c @ ''}'')) =
           Inr (Obj [(''path'', Str p), (''parameters'', v), (''call'', Bool (c = ''true''))])
       \<and> parsePathObject h (Str (''{'' @ p @ '';'' @ t @ ''}'')) =
           Inr (Obj [(''path'', Str p), (''parameters'', v), (''call'', Undefined)])
       \<and> parsePathObject h (Str (''{'' @ p @ '';;'' @ c @ ''}'')) =
           Inr (Obj [(''path'', Str p), (''parameters'', Undefined), (''call'', Bool (c = ''true''))])
       \<and> parsePathObject h (Str (''{'' @ p @ ''}'')) =
           Inr (Obj [(''path'', Str p), (''parameters'', Undefined), (''call'', Undefined)])"
proof -
  have semi: "CHR '';'' \<notin> set p" "CHR '';'' \<notin> set t" "CHR '';'' \<notin> set c" "t \<noteq> []"
    using assms(1,2,4) by (auto simp: pathText_def arrayText_def)
  have cg: "callGroup (CHR '';'' # c)" "callGroup []"
    using assms(4) by (auto simp: callGroup_def)
  have pg: "paramsGroup (CHR '';'' # t)" "paramsGroup '';''" "paramsGroup []"
    using arrayText_paramsGroup [OF assms(2)] by (auto simp: paramsGroup_def)
  have call: "parseCall (Str c) = Bool (c = ''true'')" "parseCall Undefined = Undefined"
    using assms(4) by (auto simp: parseCall_def)
  have "isShortHand (Str (CHR ''{'' # p @ (CHR '';'' # t) @ (CHR '';'' # c) @ ''}''))"
    by (rule shortHand_shape [OF assms(1) pg(1) cg(1)])
  then have a: "parsePathObject h (Str (''{'' @ p @ '';'' @ t @ '';'' @ c @ ''}'')) =
           Inr (Obj [(''path'', Str p), (''parameters'', v), (''call'', Bool (c = ''true''))])"
    using parseShortHand_fields(1) [OF semi assms(3)] call by (simp add: parsePathObject_Str)
  have "isShortHand (Str (CHR ''{'' # p @ (CHR '';'' # t) @ [] @ ''}''))"
    by (rule shortHand_shape [OF assms(1) pg(1) cg(2)])
  then have b: "parsePathObject h (Str (''{'' @ p @ '';'' @ t @ ''}'')) =
           Inr (Obj [(''path'', Str p), (''parameters'', v), (''call'', Undefined)])"
    using parseShortHand_fields(2) [OF semi assms(3)] by (simp add: parsePathObject_Str)
  have "isShortHand (Str (CHR ''{'' # p @ '';'' @ (CHR '';'' # c) @ ''}''))"
    by (rule shortHand_shape [OF assms(1) pg(2) cg(1)])
  then have c: "parsePathObject h (Str (''{'' @ p @ '';;'' @ c @ ''}'')) =
           Inr (Obj [(''path'', Str p), (''parameters'', Undefined), (''call'', Bool (c = ''true''))])"
    using parseShortHand_fields(3) [OF semi assms(3)] call by (simp add: parsePathObject_Str)
  have "isShortHand (Str (CHR ''{'' # p @ [] @ [] @ ''}''))"
    by (rule shortHand_shape [OF assms(1) pg(3) cg(2)])
  then have d: "parsePathObject h (Str (''{'' @ p @ ''}'')) =
           Inr (Obj [(''path'', Str p), (''parameters'', Undefined), (''call'', Undefined)])"
    using parseShortHand_fields(4) [OF semi assms(3)] call by (simp add: parsePathObject_Str)
  from a b c d show ?thesis by blast
qed

theorem parsePathObject_compact_witness:
  "parsePathObject demo_host (Str ''{a.b;[1,2];true}'') =
     Inr (Obj [(''path'', Str ''a.b''), (''parameters'', Arr [Num 1, Num 2]), (''call'', Bool True)])
   \<and> parsePathObject demo_host (Str ''{a.b;[1,2]}'') =
     Inr (Obj [(''path'', Str ''a.b''), (''parameters'', Arr [Num 1, Num 2]), (''call'', Undefined)])
   \<and> parsePathObject demo_host (Str ''{a.b;;true}'') =
     Inr (Obj [(''path'', Str ''a.b''), (''parameters'', Undefined), (''call'', Bool True)])
   \<and> parsePathObject demo_host (Str ''{a.b}'') =
     Inr (Obj [(''path'', Str ''a.b''), (''parameters'', Undefined), (''call'', Undefined)])"
proof -
  have 1: "pathText ''a.b''" by (simp add: pathText_def newline_def)
  have 2: "arrayText ''[1,2]''" by (simp add: arrayText_def newline_def)
  have 3: "JSON_parse demo_host ''[1,2]'' = Some (Arr [Num 1, Num 2])" by code_simp
  have 4: "''true'' = ''true'' \<or> ''true'' = ''false''" by simp
  from parsePathObject_compact [OF 1 2 3 4] show ?thesis by simp
qed

definition paramsField :: "string \<Rightarrow> string" where
  "paramsField s = (case elem_at (split CHR '';'' (slice s 1 (- 1))) 1 of Str t \<Rightarrow> t | _ \<Rightarrow> [])"

lemma parseShortHand_Inl:
  "parseShortHand (JSON_parse h) s = Inl e \<longleftrightarrow>
     paramsField s \<noteq> [] \<and> JSON_parse h (paramsField s) = None \<and> e = SyntaxError (paramsField s)"
  by (auto simp: parseShortHand_def paramsField_def Let_def elem_at_def split: option.splits)

text \<open>
  Claim C1, as amended. \<open>parsePathObject\<close> returns the empty descriptor whenever its
  argument is neither a valid structured descriptor nor a string of the compact shape. It
  raises an error on exactly one kind of input: a string of the compact shape whose second
  \<^verbatim>\<open>;\<close>-separated field is not empty and is rejected by \<^verbatim>\<open>JSON.parse\<close>; the error
  is the SyntaxError of \<^verbatim>\<open>JSON.parse\<close>. On every other input it returns a value.
\<close>

theorem parsePathObject_raises:
  "(\<not> isValidPathObject v \<and> \<not> isShortHand v \<longrightarrow> parsePathObject h v = Inr (Obj []))
   \<and> (parsePathObject h v = Inl e \<longleftrightarrow>
        (\<exists>s. v = Str s \<and> isShortHand v \<and> paramsField s \<noteq> []
           \<and> JSON_parse h (paramsField s) = None \<and> e = SyntaxError (paramsField s)))"
proof -
  have "parsePathObject h v = Inl e \<longleftrightarrow>
        (\<exists>s. v = Str s \<and> isShortHand v \<and> parseShortHand (JSON_parse h) s = Inl e)"
    by (cases v) (auto simp: parsePathObject_def isValidPathObject_Str)
  then show ?thesis
    by (simp add: parseShortHand_Inl parsePathObject_def)
qed

theorem parsePathObject_raises_witness:
  "parsePathObject demo_host (Str ''{a;[1;2]}'') = Inl (SyntaxError ''[1'')
   \<and> parsePathObject demo_host (Str ''{a;[1,2'') = Inr (Obj [])"
proof -
  have 1: "isShortHand (Str ''{a;[1;2]}'')" by code_simp
  have 2: "paramsField ''{a;[1;2]}'' = ''[1''" by code_simp
  have 3: "JSON_parse demo_host ''[1'' = None" by code_simp
  have 4: "\<not> isValidPathObject (Str ''{a;[1,2'')" by (rule isValidPathObject_Str)
  have 5: "\<not> isShortHand (Str ''{a;[1,2'')" by code_simp
  from parsePathObject_raises [of "Str ''{a;[1;2]}''" demo_host "SyntaxError ''[1''"]
    parsePathObject_raises [of "Str ''{a;[1,2''" demo_host] 1 2 3 4 5
  show ?thesis by simp
qed

text \<open>
  Claim C1 as stated fails: \<^verbatim>\<open>'{a;[x]}'\<close> matches the pattern of \<open>isShortHand\<close>, its
  parameters field \<^verbatim>\<open>[x]\<close> is not JSON, and \<open>parsePathObject\<close> raises.
\<close>

theorem parsePathObject_throws_on_bad_json:
  "isShortHand (Str ''{a;[x]}'')
   \<and> parsePathObject demo_host (Str ''{a;[x]}'') = Inl (SyntaxError ''[x]'')"
  by code_simp

section \<open>Resolution of a descriptor\<close>

lemma valid_path: "isValidPathObject d \<Longrightarrow> truthy (getProp d ''path'')"
  by (simp add: isValidPathObject_def)

lemma valid_call:
  "isValidPathObject d \<Longrightarrow>
     getProp d ''call'' = Bool True \<or> getProp d ''call'' = Bool False
     \<or> getProp d ''call'' = Undefined \<or> getProp d ''call'' = Null"
  by (cases "getProp d ''call''") (auto simp: isValidPathObject_def)

lemma valid_parameters:
  "isValidPathObject d \<Longrightarrow>
     getProp d ''parameters'' = Undefined \<or> (\<exists>ps. getProp d ''parameters'' = Arr ps)"
  by (cases "getProp d ''parameters''") (auto simp: isValidPathObject_def)

lemma call_requested:
  "isValidPathObject d \<Longrightarrow>
     truthy (getDef (getProp d ''call'') (Bool False)) \<longleftrightarrow> getProp d ''call'' = Bool True"
  using valid_call [of d] by (auto simp: getDef_def)

lemma call_declined:
  "isValidPathObject d \<Longrightarrow>
     \<not> truthy (getDef (getProp d ''call'') (Bool True))
       \<longleftrightarrow> getProp d ''call'' = Bool False \<or> getProp d ''call'' = Null"
  using valid_call [of d] by (auto simp: getDef_def)

lemma tryMakeReferenceable_noncallable:
  assumes "isValidPathObject d" "target \<noteq> Undefined" "\<not> isCallable target"
  shows "tryMakeReferenceable h d target data =
     (if getProp d ''call'' = Bool True then Inl (NotCallable (getProp d ''path''))
      else Inr (Some (AsResolved target)))"
  using assms valid_path [OF assms(1)]
  by (simp add: tryMakeReferenceable.simps pathObjectExpressesSymbol_def call_requested or_else_def)

lemma fill_parsed:
  assumes "typeof input = ''string'' \<or> typeof input = ''object''"
    and "parsePathObject h input = Inr d"
    and "tryMakeReferenceable h d (tryResolveDotPath (getProp d ''path'') data) data = Inl e"
  shows "fill h input data ignoredPaths currentPath = Inl e"
  using assms by (auto simp: fill.simps)

lemma fill_parsed_ref:
  assumes "typeof input = ''string'' \<or> typeof input = ''object''"
    and "parsePathObject h input = Inr d"
    and "tryMakeReferenceable h d (tryResolveDotPath (getProp d ''path'') data) data = Inr (Some r)"
  shows "fill h input data ignoredPaths currentPath = getReference h r"
  using assms by (auto simp: fill.simps)

definition five_map :: jsval where
  "five_map = Obj [(''x'', Num 5)]"

text \<open>
  Claim C3, as amended. For every input that parses to a valid descriptor whose path
  resolves to a defined, non-invocable target: when the descriptor has \<^verbatim>\<open>call\<close>
  explicitly \<^verbatim>\<open>true\<close>, \<open>fill\<close> fails with the non-invocable error, whatever the
  ignored paths and the current path, and so do the loop over an array and the loop over
  a mapping that reach the input at a position that is not ignored; when \<^verbatim>\<open>call\<close>
  is \<^verbatim>\<open>false\<close> or unset, \<open>fill\<close> does not fail and the target takes the place of
  the input.
\<close>

theorem fill_call_on_noncallable:
  assumes "typeof input = ''string'' \<or> typeof input = ''object''"
    and "parsePathObject h input = Inr d" and "isValidPathObject d"
    and "tryResolveDotPath (getProp d ''path'') data = target"
    and "target \<noteq> Undefined" and "\<not> isCallable target"
  shows "fill h input data ignoredPaths currentPath =
     (if getProp d ''call'' = Bool True then Inl (NotCallable (getProp d ''path''))
      else Inr target)
    \<and> (joinPath (currentPath @ [Index i]) \<notin> set ignoredPaths \<longrightarrow>
         fillArray h (input # es) i data ignoredPaths currentPath =
           (if getProp d ''call'' = Bool True then Inl (NotCallable (getProp d ''path''))
            else (case fillArray h es (Suc i) data ignoredPaths currentPath of
                    Inl e \<Rightarrow> Inl e | Inr rest \<Rightarrow> Inr (target # rest))))
    \<and> (joinPath (currentPath @ [Key k]) \<notin> set ignoredPaths \<longrightarrow>
         fillEntries h ((k, input) # kvs) data ignoredPaths currentPath =
           (if getProp d ''call'' = Bool True then Inl (NotCallable (getProp d ''path''))
            else (case fillEntries h kvs data ignoredPaths currentPath of
                    Inl e \<Rightarrow> Inl e | Inr rest \<Rightarrow> Inr ((k, target) # rest))))"
proof -
  have r: "tryMakeReferenceable h d target data =
     (if getProp d ''call'' = Bool True then Inl (NotCallable (getProp d ''path''))
      else Inr (Some (AsResolved target)))"
    using assms(3,5,6) by (rule tryMakeReferenceable_noncallable)
  have top: "fill h input data ignoredPaths cp =
     (if getProp d ''call'' = Bool True then Inl (NotCallable (getProp d ''path''))
      else Inr target)" for cp
  proof (cases "getProp d ''call'' = Bool True")
    case True
    with r assms(4) show ?thesis
      using fill_parsed [OF assms(1,2), of data "NotCallable (getProp d ''path'')"] by simp
  next
    case False
    with r assms(4) show ?thesis
      using fill_parsed_ref [OF assms(1,2), of data "AsResolved target"] by simp
  qed
  have "or_else (getProp d ''path'') input = getProp d ''path''"
    using valid_path [OF assms(3)] by (simp add: or_else_def)
  then show ?thesis
    using top assms(2,4) r by simp
qed

theorem fill_call_on_noncallable_witness:
  "fill demo_host (Str ''{x;;true}'') five_map [] [] = Inl (NotCallable (Str ''x''))
   \<and> fill demo_host (Obj [(''path'', Str ''x''), (''call'', Bool True)]) five_map [] []
       = Inl (NotCallable (Str ''x''))
   \<and> fill demo_host (Str ''{x}'') five_map [] [] = Inr (Num 5)"
proof -
  have t: "typeof (Str s) = ''string'' \<or> typeof (Str s) = ''object''" for s by simp
  have o: "typeof (Obj kvs) = ''string'' \<or> typeof (Obj kvs) = ''object''" for kvs by simp
  have p1: "parsePathObject demo_host (Str ''{x;;true}'') =
      Inr (Obj [(''path'', Str ''x''), (''parameters'', Undefined), (''call'', Bool True)])"
    by code_simp
  have p2: "parsePathObject demo_host (Obj [(''path'', Str ''x''), (''call'', Bool True)]) =
      Inr (Obj [(''path'', Str ''x''), (''call'', Bool True), (''supportsNested'', Bool True)])"
    by code_simp
  have p3: "parsePathObject demo_host (Str ''{x}'') =
      Inr (Obj [(''path'', Str ''x''), (''parameters'', Undefined), (''call'', Undefined)])"
    by code_simp
  have v1: "isValidPathObject (Obj [(''path'', Str ''x''), (''parameters'', Undefined), (''call'', Bool True)])"
    by (simp add: isValidPathObject_def)
  have v2: "isValidPathObject (Obj [(''path'', Str ''x''), (''call'', Bool True), (''supportsNested'', Bool True)])"
    by (simp add: isValidPathObject_def)
  have v3: "isValidPathObject (Obj [(''path'', Str ''x''), (''parameters'', Undefined), (''call'', Undefined)])"
    by (simp add: isValidPathObject_def)
  have r: "tryResolveDotPath (Str ''x'') five_map = Num 5"
    by (simp add: tryResolveDotPath_def five_map_def)
  have n: "Num 5 \<noteq> Undefined" "\<not> isCallable (Num 5)"
    by (simp_all add: isCallable_def)
  from fill_call_on_noncallable [OF t p1 v1 _ n, of five_map "[]" "[]"]
    fill_call_on_noncallable [OF o p2 v2 _ n, of five_map "[]" "[]"]
    fill_call_on_noncallable [OF t p3 v3 _ n, of five_map "[]" "[]"] r
  show ?thesis by simp
qed

text \<open>
  Claim C3 as stated fails: with \<^verbatim>\<open>call\<close> explicitly \<^verbatim>\<open>false\<close> and the
  non-invocable target \<^verbatim>\<open>5\<close>, \<open>fill\<close> returns \<^verbatim>\<open>5\<close>, in the compact and in the
  structured form.
\<close>

theorem fill_call_false_on_noncallable:
  "fill demo_host (Str ''{x;;false}'') five_map [] [] = Inr (Num 5)
   \<and> fill demo_host (Obj [(''path'', Str ''x''), (''call'', Bool False)]) five_map [] [] = Inr (Num 5)"
  by code_simp

lemma tryMakeReferenceable_callable:
  assumes "isValidPathObject d"
  shows "tryMakeReferenceable h d (Fun c) data =
     (if getProp d ''call'' = Bool True \<and> providedLength d \<noteq> requiredLength (Fun c)
      then Inl (InvalidParameterCount (getProp d ''path'') (providedLength d) (requiredLength (Fun c)))
      else if getProp d ''call'' = Bool False \<or> getProp d ''call'' = Null
      then Inr (Some (AsResolved (Fun c)))
      else (case (if truthy (getProp d ''supportsNested'') \<and> truthy (getProp d ''parameters'')
                     \<and> lengthPositive (getProp (getProp d ''parameters'') ''length'')
                  then fill h (getProp d ''parameters'') data [] []
                  else Inr (getProp d ''parameters'')) of
              Inl e \<Rightarrow> Inl e
            | Inr parameters \<Rightarrow> Inr (invocation (Fun c) parameters)))"
proof -
  have c: "isCallable (Fun c)" "Fun c \<noteq> Undefined"
    by (simp_all add: isCallable_def)
  have p: "or_else (getProp d ''path'') d = getProp d ''path''"
    using valid_path [OF assms] by (simp add: or_else_def)
  consider "getProp d ''call'' = Bool True" | "getProp d ''call'' = Bool False"
    | "getProp d ''call'' = Undefined" | "getProp d ''call'' = Null"
    using valid_call [OF assms] by blast
  then show ?thesis
  proof cases
    case 1
    then show ?thesis
      using c p assms
      by (simp add: tryMakeReferenceable.simps [of h d] pathObjectExpressesSymbol_def getDef_def)
  next
    case 2
    then show ?thesis
      using c p assms
      by (simp add: tryMakeReferenceable.simps [of h d] pathObjectExpressesSymbol_def getDef_def)
  next
    case 3
    then show ?thesis
      using c p assms
      by (simp add: tryMakeReferenceable.simps [of h d] pathObjectExpressesSymbol_def getDef_def)
  next
    case 4
    then show ?thesis
      using c p assms
      by (simp add: tryMakeReferenceable.simps [of h d] pathObjectExpressesSymbol_def getDef_def)
  qed
qed

definition one_map :: jsval where
  "one_map = Obj [(''f'', Fun f_one)]"

text \<open>
  Claim C8. For every input that parses to a valid descriptor with \<^verbatim>\<open>call\<close>
  \<^verbatim>\<open>false\<close> (or \<^verbatim>\<open>null\<close>, which \<open>getDef\<close> leaves as it is and which is as
  false) whose path resolves to an invocable target, \<open>fill\<close> returns the target
  itself, uninvoked: at the root of the input, as an element of an array and as the value
  of a mapping entry (where the position is not among the ignored paths). The witness is
  the example of the claim, \<^verbatim>\<open>fill('{f;;false}', {f: () => 1})\<close>, and its structured
  form.
\<close>

theorem fill_call_false_returns_target:
  assumes "typeof input = ''string'' \<or> typeof input = ''object''"
    and "parsePathObject h input = Inr d" and "isValidPathObject d"
    and "getProp d ''call'' = Bool False \<or> getProp d ''call'' = Null"
    and "tryResolveDotPath (getProp d ''path'') data = Fun c"
  shows "fill h input data ignoredPaths currentPath = Inr (Fun c)
    \<and> (joinPath (currentPath @ [Index i]) \<notin> set ignoredPaths \<longrightarrow>
         fillArray h (input # es) i data ignoredPaths currentPath =
           (case fillArray h es (Suc i) data ignoredPaths currentPath of
              Inl e \<Rightarrow> Inl e | Inr rest \<Rightarrow> Inr (Fun c # rest)))
    \<and> (joinPath (currentPath @ [Key k]) \<notin> set ignoredPaths \<longrightarrow>
         fillEntries h ((k, input) # kvs) data ignoredPaths currentPath =
           (case fillEntries h kvs data ignoredPaths currentPath of
              Inl e \<Rightarrow> Inl e | Inr rest \<Rightarrow> Inr ((k, Fun c) # rest)))"
proof -
  have r: "tryMakeReferenceable h d (Fun c) data = Inr (Some (AsResolved (Fun c)))"
    using assms(4) by (auto simp: tryMakeReferenceable_callable [OF assms(3)])
  have top: "fill h input data ignoredPaths cp = Inr (Fun c)" for cp
    using fill_parsed_ref [OF assms(1,2), of data "AsResolved (Fun c)"] r assms(5) by simp
  have "or_else (getProp d ''path'') input = getProp d ''path''"
    using valid_path [OF assms(3)] by (simp add: or_else_def)
  then show ?thesis
    using top assms(2,5) r by simp
qed

theorem fill_call_false_returns_target_witness:
  "fill demo_host (Str ''{f;;false}'') one_map [] [] = Inr (Fun f_one)
   \<and> fill demo_host (Obj [(''path'', Str ''f''), (''call'', Bool False)]) one_map [] [] = Inr (Fun f_one)"
proof -
  have t: "typeof (Str s) = ''string'' \<or> typeof (Str s) = ''object''" for s by simp
  have o: "typeof (Obj kvs) = ''string'' \<or> typeof (Obj kvs) = ''object''" for kvs by simp
  have p1: "parsePathObject demo_host (Str ''{f;;false}'') =
      Inr (Obj [(''path'', Str ''f''), (''parameters'', Undefined), (''call'', Bool False)])"
    by code_simp
  have p2: "parsePathObject demo_host (Obj [(''path'', Str ''f''), (''call'', Bool False)]) =
      Inr (Obj [(''path'', Str ''f''), (''call'', Bool False), (''supportsNested'', Bool True)])"
    by code_simp
  have v1: "isValidPathObject (Obj [(''path'', Str ''f''), (''parameters'', Undefined), (''call'', Bool False)])"
    by (simp add: isValidPathObject_def)
  have v2: "isValidPathObject (Obj [(''path'', Str ''f''), (''call'', Bool False), (''supportsNested'', Bool True)])"
    by (simp add: isValidPathObject_def)
  have c1: "getProp (Obj [(''path'', Str ''f''), (''parameters'', Undefined), (''call'', Bool False)]) ''call'' = Bool False
      \<or> getProp (Obj [(''path'', Str ''f''), (''parameters'', Undefined), (''call'', Bool False)]) ''call'' = Null"
    by simp
  have c2: "getProp (Obj [(''path'', Str ''f''), (''call'', Bool False), (''supportsNested'', Bool True)]) ''call'' = Bool False
      \<or> getProp (Obj [(''path'', Str ''f''), (''call'', Bool False), (''supportsNested'', Bool True)]) ''call'' = Null"
    by simp
  have r: "tryResolveDotPath (Str ''f'') one_map = Fun f_one"
    by (simp add: tryResolveDotPath_def one_map_def)
  from fill_call_false_returns_target [OF t p1 v1 c1, of one_map f_one "[]" "[]"]
    fill_call_false_returns_target [OF o p2 v2 c2, of one_map f_one "[]" "[]"] r
  show ?thesis by simp
qed

section \<open>Parameters\<close>

fun collect :: "(error + 'a) list \<Rightarrow> error + 'a list" where
  "collect [] = Inr []"
| "collect (Inl e # rs) = Inl e"
| "collect (Inr x # rs) = (case collect rs of Inl e \<Rightarrow> Inl e | Inr xs \<Rightarrow> Inr (x # xs))"

definition invoke :: "host \<Rightarrow> callable \<Rightarrow> jsval list \<Rightarrow> error + jsval" where
  "invoke h c args = (if isFunction c then call_fn h c args else construct h c args)"

definition invokes :: "jsval \<Rightarrow> jsval \<Rightarrow> callable \<Rightarrow> bool" where
  "invokes d data c \<longleftrightarrow>
     isValidPathObject d
     \<and> tryResolveDotPath (getProp d ''path'') data = Fun c
     \<and> (getProp d ''call'' = Undefined
        \<or> (getProp d ''call'' = Bool True \<and> providedLength d = requiredLength (Fun c)))"

lemma isValidPathObject_Arr: "\<not> isValidPathObject (Arr xs)"
  by (simp add: isValidPathObject_def)

lemma fill_Arr:
  "fill h (Arr xs) data ignoredPaths currentPath =
     (case fillArray h xs 0 data ignoredPaths currentPath of
        Inl e \<Rightarrow> Inl e | Inr ys \<Rightarrow> Inr (Arr ys))"
  by (simp add: fill.simps [of h "Arr xs"] parsePathObject_def isValidPathObject_Arr
      tryMakeReferenceable_empty)

lemma fillArray_collect:
  "fillArray h ps i data [] currentPath = collect (map (\<lambda>p. fill h p data [] currentPath) ps)"
proof (induction ps arbitrary: i)
  case Nil
  show ?case by simp
next
  case (Cons p ps)
  show ?case
    by (cases "fill h p data [] currentPath") (simp_all add: Cons.IH)
qed

lemma getReference_invocation:
  "(case invocation (Fun c) parameters of None \<Rightarrow> Inl TypeError | Some r \<Rightarrow> getReference h r) =
     invoke h c (spreadArgs (or_else parameters (Arr [])))"
  by (simp add: invoke_def)

lemma fill_invokes:
  assumes "typeof input = ''string'' \<or> typeof input = ''object''"
    and "parsePathObject h input = Inr d" and "invokes d data c"
  shows "fill h input data ignoredPaths currentPath =
     (case (if truthy (getProp d ''supportsNested'') \<and> truthy (getProp d ''parameters'')
                     \<and> lengthPositive (getProp (getProp d ''parameters'') ''length'')
            then fill h (getProp d ''parameters'') data [] []
            else Inr (getProp d ''parameters'')) of
        Inl e \<Rightarrow> Inl e
      | Inr parameters \<Rightarrow> invoke h c (spreadArgs (or_else parameters (Arr []))))"
proof -
  from assms(3) have v: "isValidPathObject d"
    and t: "tryResolveDotPath (getProp d ''path'') data = Fun c"
    and c: "getProp d ''call'' = Undefined
        \<or> (getProp d ''call'' = Bool True \<and> providedLength d = requiredLength (Fun c))"
    by (simp_all add: invokes_def)
  let ?ps = "if truthy (getProp d ''supportsNested'') \<and> truthy (getProp d ''parameters'')
                     \<and> lengthPositive (getProp (getProp d ''parameters'') ''length'')
            then fill h (getProp d ''parameters'') data [] []
            else Inr (getProp d ''parameters'')"
  have m: "tryMakeReferenceable h d (Fun c) data =
      (case ?ps of Inl e \<Rightarrow> Inl e | Inr parameters \<Rightarrow> Inr (invocation (Fun c) parameters))"
    using c by (auto simp: tryMakeReferenceable_callable [OF v])
  show ?thesis
  proof (cases ?ps)
    case (Inl e)
    with m t have "tryMakeReferenceable h d (tryResolveDotPath (getProp d ''path'') data) data = Inl e"
      by simp
    from fill_parsed [OF assms(1,2) this] Inl show ?thesis by simp
  next
    case (Inr parameters)
    obtain r where r: "invocation (Fun c) parameters = Some r"
      by (cases "isFunction c") simp_all
    with m t Inr
    have "tryMakeReferenceable h d (tryResolveDotPath (getProp d ''path'') data) data = Inr (Some r)"
      by simp
    from fill_parsed_ref [OF assms(1,2) this] Inr r
    show ?thesis
      using getReference_invocation [where c = c and parameters = parameters and h = h] by simp
  qed
qed

lemma invokes_setProp:
  "invokes (Obj (setProp kvs ''supportsNested'' b)) data c = invokes (Obj kvs) data c"
  unfolding invokes_def isValidPathObject_setProp providedLength_def getProp_setProp by simp

text \<open>
  Claim C6. A descriptor \<open>d\<close> \<^emph>\<open>invokes\<close> \<open>c\<close> when it is valid, its path resolves to
  the callable \<open>c\<close>, and its \<^verbatim>\<open>call\<close> is unset or is \<^verbatim>\<open>true\<close> with as many
  parameters as \<open>c\<close> requires. For a structured descriptor that invokes \<open>c\<close>, every
  element of its parameters goes through \<open>fill\<close> against the same data map, in order and
  with no ignored paths, an error among them aborts the whole \<open>fill\<close>, and \<open>c\<close> is invoked
  on the results. For a compact string that parses to a descriptor invoking \<open>c\<close>, \<open>c\<close> is
  invoked on the decoded parameters as they are. The witness: \<^verbatim>\<open>outer\<close> of
  \<^verbatim>\<open>inner\<close> is \<^verbatim>\<open>8\<close>; \<^verbatim>\<open>(x) => x\<close> receives \<^verbatim>\<open>"7"\<close> from the
  structured form and the text \<^verbatim>\<open>"{inner}"\<close> from the compact form.
\<close>

theorem fill_nested_parameters:
  "(invokes d data c \<longrightarrow>
      fill h d data ignoredPaths currentPath =
        (case collect (map (\<lambda>p. fill h p data [] []) (spreadArgs (getProp d ''parameters''))) of
           Inl e \<Rightarrow> Inl e
         | Inr args \<Rightarrow> invoke h c args))
   \<and> (parsePathObject h (Str s) = Inr d' \<and> invokes d' data c \<longrightarrow>
      fill h (Str s) data ignoredPaths currentPath =
        invoke h c (spreadArgs (getProp d' ''parameters'')))"
proof (intro conjI impI)
  assume i: "invokes d data c"
  then have v: "isValidPathObject d" by (simp add: invokes_def)
  then obtain kvs where d: "d = Obj kvs"
    using isValidPathObject_Obj by blast
  let ?d = "Obj (setProp kvs ''supportsNested'' (Bool True))"
  have p: "parsePathObject h d = Inr ?d"
    using v d by (simp add: parsePathObject_def)
  have i': "invokes ?d data c"
    using i d by (simp only: invokes_setProp)
  have ty: "typeof d = ''string'' \<or> typeof d = ''object''"
    using d by simp
  have g: "getProp ?d ''parameters'' = getProp d ''parameters''"
    "truthy (getProp ?d ''supportsNested'')"
    unfolding d getProp_setProp by simp_all
  have f: "fill h d data ignoredPaths currentPath =
     (case (if truthy (getProp d ''parameters'')
                     \<and> lengthPositive (getProp (getProp d ''parameters'') ''length'')
            then fill h (getProp d ''parameters'') data [] []
            else Inr (getProp d ''parameters'')) of
        Inl e \<Rightarrow> Inl e
      | Inr parameters \<Rightarrow> invoke h c (spreadArgs (or_else parameters (Arr []))))"
    using fill_invokes [OF ty p i', of ignoredPaths currentPath] by (simp only: g simp_thms)
  from valid_parameters [OF v]
  show "fill h d data ignoredPaths currentPath =
        (case collect (map (\<lambda>p. fill h p data [] []) (spreadArgs (getProp d ''parameters''))) of
           Inl e \<Rightarrow> Inl e
         | Inr args \<Rightarrow> invoke h c args)"
  proof
    assume "getProp d ''parameters'' = Undefined"
    with f show ?thesis by (simp add: or_else_def)
  next
    assume "\<exists>ps. getProp d ''parameters'' = Arr ps"
    then obtain ps where ps: "getProp d ''parameters'' = Arr ps" by blast
    show ?thesis
    proof (cases ps)
      case Nil
      with f ps show ?thesis by (simp add: or_else_def)
    next
      case (Cons q qs)
      with f ps show ?thesis
        by (simp add: fill_Arr fillArray_collect or_else_def split: sum.splits)
    qed
  qed
next
  assume a: "parsePathObject h (Str s) = Inr d' \<and> invokes d' data c"
  then have "isShortHand (Str s)" "parseShortHand (JSON_parse h) s = Inr d'"
    by (auto simp: parsePathObject_Str invokes_def isValidPathObject_def split: if_splits)
  then have n: "\<not> truthy (getProp d' ''supportsNested'')"
    using parseShortHand_not_nested [of "JSON_parse h" s d'] by simp
  have ty: "typeof (Str s) = ''string'' \<or> typeof (Str s) = ''object''" by simp
  from a have v: "isValidPathObject d'" by (simp add: invokes_def)
  have "spreadArgs (or_else (getProp d' ''parameters'') (Arr [])) = spreadArgs (getProp d' ''parameters'')"
    using valid_parameters [OF v] by (auto simp: or_else_def)
  with fill_invokes [OF ty conjunct1 [OF a] conjunct2 [OF a], of ignoredPaths currentPath] n
  show "fill h (Str s) data ignoredPaths currentPath =
        invoke h c (spreadArgs (getProp d' ''parameters''))"
    by simp
qed

definition nested_map :: jsval where
  "nested_map = Obj [(''inner'', Fun f_inner), (''outer'', Fun f_outer), (''echo'', Fun f_echo)]"

definition outer_of_inner :: jsval where
  "outer_of_inner = Obj [(''path'', Str ''outer''), (''parameters'', Arr [Obj [(''path'', Str ''inner'')]])]"

definition echo_structured :: jsval where
  "echo_structured = Obj [(''path'', Str ''echo''), (''parameters'', Arr [Str ''{inner}''])]"

definition echo_compact :: string where
  "echo_compact = ''{echo;[\"{inner}\"]}''"

theorem fill_nested_parameters_witness:
  "fill demo_host outer_of_inner nested_map [] [] = Inr (Num 8)
   \<and> fill demo_host echo_structured nested_map [] [] = Inr (Str ''7'')
   \<and> fill demo_host (Str echo_compact) nested_map [] [] = Inr (Str ''{inner}'')"
proof -
  have i1: "invokes outer_of_inner nested_map f_outer"
    by (simp add: invokes_def outer_of_inner_def nested_map_def isValidPathObject_def
        tryResolveDotPath_def)
  have i2: "invokes echo_structured nested_map f_echo"
    by (simp add: invokes_def echo_structured_def nested_map_def isValidPathObject_def
        tryResolveDotPath_def)
  have p3: "parsePathObject demo_host (Str echo_compact) =
      Inr (Obj [(''path'', Str ''echo''), (''parameters'', Arr [Str ''{inner}'']), (''call'', Undefined)])"
    by code_simp
  have i3: "invokes (Obj [(''path'', Str ''echo''), (''parameters'', Arr [Str ''{inner}'']),
      (''call'', Undefined)]) nested_map f_echo"
    by (simp add: invokes_def nested_map_def isValidPathObject_def tryResolveDotPath_def)
  have e1: "(case collect (map (\<lambda>p. fill demo_host p nested_map [] [])
                (spreadArgs (getProp outer_of_inner ''parameters''))) of
              Inl e \<Rightarrow> Inl e | Inr args \<Rightarrow> invoke demo_host f_outer args) = Inr (Num 8)"
    by code_simp
  have e2: "(case collect (map (\<lambda>p. fill demo_host p nested_map [] [])
                (spreadArgs (getProp echo_structured ''parameters''))) of
              Inl e \<Rightarrow> Inl e | Inr args \<Rightarrow> invoke demo_host f_echo args) = Inr (Str ''7'')"
    by code_simp
  have e3: "invoke demo_host f_echo (spreadArgs (getProp (Obj [(''path'', Str ''echo''),
      (''parameters'', Arr [Str ''{inner}'']), (''call'', Undefined)]) ''parameters'')) = Inr (Str ''{inner}'')"
    by code_simp
  from fill_nested_parameters [where d = outer_of_inner and data = nested_map and c = f_outer
      and h = demo_host and ignoredPaths = "[]" and currentPath = "[]"]
    fill_nested_parameters [where d = echo_structured and data = nested_map and c = f_echo
      and h = demo_host and ignoredPaths = "[]" and currentPath = "[]"]
    fill_nested_parameters [where c = f_echo and h = demo_host and s = echo_compact
      and d' = "Obj [(''path'', Str ''echo''), (''parameters'', Arr [Str ''{inner}'']), (''call'', Undefined)]"
      and data = nested_map and ignoredPaths = "[]" and currentPath = "[]"]
    i1 i2 i3 p3 e1 e2 e3
  show ?thesis by simp
qed

section \<open>The value \<^verbatim>\<open>null\<close>\<close>

lemma fill_Obj_plain:
  "\<not> isValidPathObject (Obj kvs) \<Longrightarrow>
   fill h (Obj kvs) data ignoredPaths currentPath =
     (case fillEntries h kvs data ignoredPaths currentPath of
        Inl e \<Rightarrow> Inl e | Inr entries \<Rightarrow> Inr (Obj entries))"
  by (simp add: fill.simps [of h "Obj kvs"] parsePathObject_def tryMakeReferenceable_empty)

text \<open>
  Claim C2. For every data map and every input that is neither a string nor a structured
  value, numbers, booleans, \<^verbatim>\<open>null\<close> and \<^verbatim>\<open>undefined\<close> included, \<open>fill\<close>
  returns the input unchanged and does not fail. The code does so for numbers, booleans
  and \<^verbatim>\<open>undefined\<close> (\<open>fill_plain\<close>), but \<^verbatim>\<open>typeof null\<close> is
  \<^verbatim>\<open>'object'\<close>: \<^verbatim>\<open>null\<close> passes the guard, is no descriptor, no string and no
  array, and reaches \<^verbatim>\<open>Object.entries(null)\<close>, which throws a TypeError. The theorem
  is the run of the code on \<^verbatim>\<open>null\<close>, for every host, data map, list of ignored
  paths and current path, and on \<^verbatim>\<open>null\<close> as the element of an array and as the
  value of a mapping entry.
\<close>

theorem fill_null_throws:
  "fill h Null data ignoredPaths currentPath = Inl TypeError
   \<and> fill h (Arr [Null]) data [] [] = Inl TypeError
   \<and> fill h (Obj [(k, Null)]) data [] [] = Inl TypeError"
proof -
  have n: "fill h Null data ign cp = Inl TypeError" for ign cp
    by (simp add: fill.simps parsePathObject_Null tryMakeReferenceable_empty)
  have "\<not> isValidPathObject (Obj [(k, Null)])"
    by (simp add: isValidPathObject_def)
  then show ?thesis
    using n by (simp add: fill_Arr fill_Obj_plain parsePathObject_Null tryMakeReferenceable_empty)
qed

section \<open>Arity\<close>

definition add_map :: jsval where
  "add_map = Obj [(''f'', Fun f_add)]"

text \<open>
  Claim C5. Whenever invocation of a target is attempted, the number of supplied
  parameters must equal the declared count, too few and too many being errors;
  \<^verbatim>\<open>fill('{f;[1]}', {f: (x,y) => x+y})\<close> fails with an arity mismatch and
  \<^verbatim>\<open>fill('{f;[1,2]}', M)\<close> yields \<^verbatim>\<open>3\<close>. In \<open>pathObjectExpressesSymbol\<close> the
  comparison of the counts reads \<^verbatim>\<open>getDef(obj.call, true) && providedLength !== requiredLength\<close>,
  with \<^verbatim>\<open>call\<close> defaulting to \<^verbatim>\<open>true\<close>, but it sits under the guard
  \<^verbatim>\<open>isCallable(resolved) && getDef(obj.call, false)\<close>, which is false when
  \<^verbatim>\<open>call\<close> is unset; \<open>tryMakeReferenceable\<close> then invokes the target. The theorem
  is the run of the code: with \<^verbatim>\<open>call\<close> unset, \<^verbatim>\<open>f\<close> is called with the one
  argument and returns \<^verbatim>\<open>NaN\<close>; with \<^verbatim>\<open>call\<close> explicitly \<^verbatim>\<open>true\<close> the
  mismatch is an error; with two parameters the result is \<^verbatim>\<open>3\<close>.
\<close>

theorem fill_arity_unchecked:
  "fill demo_host (Str ''{f;[1]}'') add_map [] [] = Inr NaN
   \<and> fill demo_host (Str ''{f;[1];true}'') add_map [] [] =
       Inl (InvalidParameterCount (Str ''f'') (Num 1) (Num 2))
   \<and> fill demo_host (Str ''{f;[1,2]}'') add_map [] [] = Inr (Num 3)"
  by code_simp

section \<open>Ignored paths\<close>

lemma fillEntries_ignored:
  "joinPath (currentPath @ [Key k]) \<in> set ignoredPaths \<Longrightarrow>
     fillEntries h ((k, v) # kvs) data ignoredPaths currentPath =
       (case fillEntries h kvs data ignoredPaths currentPath of
          Inl e \<Rightarrow> Inl e | Inr rest \<Rightarrow> Inr ((k, v) # rest))"
  by simp

lemma fillArray_ignored:
  "joinPath (currentPath @ [Index i]) \<in> set ignoredPaths \<Longrightarrow>
     fillArray h (e # es) i data ignoredPaths currentPath =
       (case fillArray h es (Suc i) data ignoredPaths currentPath of
          Inl err \<Rightarrow> Inl err | Inr rest \<Rightarrow> Inr (e # rest))"
  by simp

text \<open>
  Claim C9. Every mapping entry and array index whose dot-joined path from the root of the
  input is among the ignored paths is copied verbatim, while its siblings are resolved.
  The loop over the entries of a mapping passes \<^verbatim>\<open>[...currentPath]\<close> to the
  recursive call while the key is still pushed; the loop over an array pops the index
  before the recursive call, so below an array the index is missing from the path. The
  theorem is the run of the code: the entry at \<^verbatim>\<open>a.0.b\<close> is resolved although
  \<^verbatim>\<open>"a.0.b"\<close> is ignored (it is skipped under the name \<^verbatim>\<open>"a.b"\<close>); below
  mappings only, \<^verbatim>\<open>"a.c.b"\<close> is honoured; and the example of the claim holds.
\<close>

theorem fill_ignored_below_array:
  "fill demo_host (Obj [(''a'', Arr [Obj [(''b'', Str ''{x}'')]])]) five_map [''a.0.b''] [] =
     Inr (Obj [(''a'', Arr [Obj [(''b'', Num 5)]])])
   \<and> fill demo_host (Obj [(''a'', Arr [Obj [(''b'', Str ''{x}'')]])]) five_map [''a.b''] [] =
     Inr (Obj [(''a'', Arr [Obj [(''b'', Str ''{x}'')]])])
   \<and> fill demo_host (Obj [(''a'', Obj [(''c'', Obj [(''b'', Str ''{x}'')])])]) five_map [''a.c.b''] [] =
     Inr (Obj [(''a'', Obj [(''c'', Obj [(''b'', Str ''{x}'')])])])
   \<and> fill demo_host (Obj [(''a'', Str ''{x}''), (''b'', Str ''{x}'')]) five_map [''a''] [] =
     Inr (Obj [(''a'', Str ''{x}''), (''b'', Num 5)])"
  by code_simp

section \<open>Arrays and objects in a store\<close>

text \<open>
  \<open>fill\<close> assigns to the elements of the array it is given (\<^verbatim>\<open>input[i] = ...\<close>) and
  to a property of the parsed descriptor (\<^verbatim>\<open>obj.parameters = ...\<close>). Which object is
  changed, and which object is returned, shows only when arrays and objects have an
  identity: here they are cells of a store, a value refers to a cell by its address, and
  a new object takes the next free address. The functions below are the same code as
  above, read on the store; their names carry the suffix \<open>_s\<close>. The input may now share
  cells or contain itself, so the recursion is bounded by a fuel, and running out of it
  is the outcome \<open>OutOfFuel\<close>. An error keeps the store as the exception found it. The
  host's functions work on the store as well.
\<close>

datatype sval =
    SUndefined
  | SNull
  | SBool bool
  | SNum int
  | SNaN
  | SStr string
  | SFun callable
  | SRef nat

datatype cell = ArrCell "sval list" | ObjCell "(string \<times> sval) list"

type_synonym store = "cell list"

definition lookup :: "store \<Rightarrow> nat \<Rightarrow> cell option" where
  "lookup st a = (if a < length st then Some (st ! a) else None)"

definition alloc :: "cell \<Rightarrow> store \<Rightarrow> nat \<times> store" where
  "alloc c st = (length st, st @ [c])"

datatype 'a outcome = OutOfFuel | Throw error store | Return 'a store

record shost =
  parse_json :: "string \<Rightarrow> jsval option"
  call_st :: "callable \<Rightarrow> sval list \<Rightarrow> store \<Rightarrow> sval outcome"
  construct_st :: "callable \<Rightarrow> sval list \<Rightarrow> store \<Rightarrow> sval outcome"

fun typeof_s :: "sval \<Rightarrow> string" where
  "typeof_s SUndefined = ''undefined''"
| "typeof_s SNull = ''object''"
| "typeof_s (SBool b) = ''boolean''"
| "typeof_s (SNum n) = ''number''"
| "typeof_s SNaN = ''number''"
| "typeof_s (SStr s) = ''string''"
| "typeof_s (SFun c) = ''function''"
| "typeof_s (SRef a) = ''object''"

fun truthy_s :: "sval \<Rightarrow> bool" where
  "truthy_s SUndefined = False"
| "truthy_s SNull = False"
| "truthy_s (SBool b) = b"
| "truthy_s (SNum n) = (n \<noteq> 0)"
| "truthy_s SNaN = False"
| "truthy_s (SStr s) = (s \<noteq> [])"
| "truthy_s (SFun c) = True"
| "truthy_s (SRef a) = True"

fun arrayAt :: "store \<Rightarrow> sval \<Rightarrow> sval list option" where
  "arrayAt st (SRef a) = (case lookup st a of Some (ArrCell xs) \<Rightarrow> Some xs | _ \<Rightarrow> None)"
| "arrayAt st v = None"

definition isArray_s :: "store \<Rightarrow> sval \<Rightarrow> bool" where
  "isArray_s st v \<longleftrightarrow> arrayAt st v \<noteq> None"

fun getProp_s :: "store \<Rightarrow> sval \<Rightarrow> string \<Rightarrow> sval" where
  "getProp_s st (SRef a) k =
     (case lookup st a of
        Some (ObjCell kvs) \<Rightarrow> (case map_of kvs k of None \<Rightarrow> SUndefined | Some v \<Rightarrow> v)
      | Some (ArrCell xs) \<Rightarrow>
          (if k = ''length'' then SNum (int (length xs))
           else (case index_of_key (length xs) k of None \<Rightarrow> SUndefined | Some i \<Rightarrow> xs ! i))
      | None \<Rightarrow> SUndefined)"
| "getProp_s st (SStr s) k =
     (if k = ''length'' then SNum (int (length s))
      else (case index_of_key (length s) k of None \<Rightarrow> SUndefined | Some i \<Rightarrow> SStr [s ! i]))"
| "getProp_s st (SFun c) k = (if k = ''length'' then SNum (int (flen c)) else SUndefined)"
| "getProp_s st v k = SUndefined"

fun setProp_s :: "(string \<times> sval) list \<Rightarrow> string \<Rightarrow> sval \<Rightarrow> (string \<times> sval) list" where
  "setProp_s [] k v = [(k, v)]"
| "setProp_s ((k', v') # kvs) k v =
     (if k' = k then (k, v) # kvs else (k', v') # setProp_s kvs k v)"

text \<open>The assignments \<^verbatim>\<open>o[k] = v\<close> and \<^verbatim>\<open>a[i] = v\<close> on the cell behind a reference.\<close>

definition assignProp :: "store \<Rightarrow> sval \<Rightarrow> string \<Rightarrow> sval \<Rightarrow> store" where
  "assignProp st obj k v =
     (case obj of
        SRef a \<Rightarrow> (case lookup st a of
                     Some (ObjCell kvs) \<Rightarrow> st[a := ObjCell (setProp_s kvs k v)]
                   | _ \<Rightarrow> st)
      | _ \<Rightarrow> st)"

definition assignIndex :: "store \<Rightarrow> nat \<Rightarrow> nat \<Rightarrow> sval \<Rightarrow> store" where
  "assignIndex st a i v =
     (case lookup st a of
        Some (ArrCell xs) \<Rightarrow>
          st[a := ArrCell (if i < length xs then xs[i := v]
                           else xs @ replicate (i - length xs) SUndefined @ [v])]
      | _ \<Rightarrow> st)"

text \<open>A value built by the host or by an object literal is new in the store.\<close>

fun store_val :: "jsval \<Rightarrow> store \<Rightarrow> sval \<times> store"
and store_vals :: "jsval list \<Rightarrow> store \<Rightarrow> sval list \<times> store"
and store_props :: "(string \<times> jsval) list \<Rightarrow> store \<Rightarrow> (string \<times> sval) list \<times> store"
where
  "store_val Undefined st = (SUndefined, st)"
| "store_val Null st = (SNull, st)"
| "store_val (Bool b) st = (SBool b, st)"
| "store_val (Num n) st = (SNum n, st)"
| "store_val NaN st = (SNaN, st)"
| "store_val (Str s) st = (SStr s, st)"
| "store_val (Fun c) st = (SFun c, st)"
| "store_val (Arr xs) st =
     (case store_vals xs st of (vs, st') \<Rightarrow>
        (case alloc (ArrCell vs) st' of (a, st'') \<Rightarrow> (SRef a, st'')))"
| "store_val (Obj kvs) st =
     (case store_props kvs st of (ps, st') \<Rightarrow>
        (case alloc (ObjCell ps) st' of (a, st'') \<Rightarrow> (SRef a, st'')))"
| "store_vals [] st = ([], st)"
| "store_vals (x # xs) st =
     (case store_val x st of (v, st') \<Rightarrow>
        (case store_vals xs st' of (vs, st'') \<Rightarrow> (v # vs, st'')))"
| "store_props [] st = ([], st)"
| "store_props ((k, x) # kvs) st =
     (case store_val x st of (v, st') \<Rightarrow>
        (case store_props kvs st' of (ps, st'') \<Rightarrow> ((k, v) # ps, st'')))"

definition isValidPathObject_s :: "store \<Rightarrow> sval \<Rightarrow> bool" where
  "isValidPathObject_s st obj \<longleftrightarrow>
     truthy_s obj
     \<and> truthy_s (getProp_s st obj ''path'')
     \<and> typeof_s (getProp_s st obj ''path'') = ''string''
     \<and> (typeof_s (getProp_s st obj ''call'') = ''boolean''
        \<or> getProp_s st obj ''call'' = SUndefined \<or> getProp_s st obj ''call'' = SNull)
     \<and> ((typeof_s (getProp_s st obj ''parameters'') = ''object''
          \<and> isArray_s st (getProp_s st obj ''parameters''))
        \<or> getProp_s st obj ''parameters'' = SUndefined)"

fun ownProps_s :: "store \<Rightarrow> sval \<Rightarrow> (string \<times> sval) list" where
  "ownProps_s st (SRef a) = (case lookup st a of Some (ObjCell kvs) \<Rightarrow> kvs | _ \<Rightarrow> [])"
| "ownProps_s st v = []"

fun isShortHand_s :: "sval \<Rightarrow> bool" where
  "isShortHand_s (SStr s) = matches shortHandPattern s"
| "isShortHand_s v = False"

definition parseShortHand_s :: "shost \<Rightarrow> string \<Rightarrow> store \<Rightarrow> error + sval \<times> store" where
  "parseShortHand_s h s st =
     (case parseShortHand (parse_json h) s of
        Inl e \<Rightarrow> Inl e
      | Inr parsed \<Rightarrow> Inr (store_val parsed st))"

definition parsePathObject_s :: "shost \<Rightarrow> sval \<Rightarrow> store \<Rightarrow> error + sval \<times> store" where
  "parsePathObject_s h obj st =
     (if isValidPathObject_s st obj then
        (case alloc (ObjCell (setProp_s (ownProps_s st obj) ''supportsNested'' (SBool True))) st of
           (a, st') \<Rightarrow> Inr (SRef a, st'))
      else if isShortHand_s obj then
        (case obj of SStr s \<Rightarrow> parseShortHand_s h s st | _ \<Rightarrow> Inr (store_val (Obj []) st))
      else Inr (store_val (Obj []) st))"


definition isCallable_s :: "sval \<Rightarrow> bool" where
  "isCallable_s item \<longleftrightarrow> typeof_s item = ''function''"

definition tryResolveDotPath_s :: "store \<Rightarrow> sval \<Rightarrow> sval \<Rightarrow> sval" where
  "tryResolveDotPath_s st dotPath obj =
     (case dotPath of
        SStr p \<Rightarrow> foldl (\<lambda>a b. if truthy_s a then getProp_s st a b else SUndefined) obj
                    (split CHR ''.'' p)
      | _ \<Rightarrow> SUndefined)"

definition getDef_s :: "sval \<Rightarrow> sval \<Rightarrow> sval" where
  "getDef_s obj def = (if obj = SUndefined then def else obj)"

definition or_else_s :: "sval \<Rightarrow> sval \<Rightarrow> sval" where
  "or_else_s a b = (if truthy_s a then a else b)"

text \<open>The value shown in an error message; an object is not looked into.\<close>

fun shown :: "sval \<Rightarrow> jsval" where
  "shown SUndefined = Undefined"
| "shown SNull = Null"
| "shown (SBool b) = Bool b"
| "shown (SNum n) = Num n"
| "shown SNaN = NaN"
| "shown (SStr s) = Str s"
| "shown (SFun c) = Fun c"
| "shown (SRef a) = Obj []"

definition requiredLength_s :: "sval \<Rightarrow> sval" where
  "requiredLength_s resolved =
     (case resolved of
        SFun c \<Rightarrow> (if isFunction c then SNum (int (flen c)) else SNum (int (ctorLen c)))
      | _ \<Rightarrow> SUndefined)"

text \<open>\<^verbatim>\<open>(obj.parameters || []).length\<close> and \<^verbatim>\<open>...(obj.parameters || [])\<close>: the
  empty array literal is not put in the store.\<close>

definition providedLength_s :: "store \<Rightarrow> sval \<Rightarrow> sval" where
  "providedLength_s st obj =
     (if truthy_s (getProp_s st obj ''parameters'')
      then getProp_s st (getProp_s st obj ''parameters'') ''length''
      else SNum 0)"

definition spreadArgs_s :: "store \<Rightarrow> sval \<Rightarrow> sval list" where
  "spreadArgs_s st obj =
     (if truthy_s (getProp_s st obj ''parameters'')
      then (case arrayAt st (getProp_s st obj ''parameters'') of None \<Rightarrow> [] | Some xs \<Rightarrow> xs)
      else [])"

definition pathObjectExpressesSymbol_s :: "store \<Rightarrow> sval \<Rightarrow> sval \<Rightarrow> error + bool" where
  "pathObjectExpressesSymbol_s st obj resolved =
     (if resolved = SUndefined
        then Inl (NotAccessible (shown (or_else_s (getProp_s st obj ''path'') obj)))
      else if \<not> isCallable_s resolved \<and> truthy_s (getDef_s (getProp_s st obj ''call'') (SBool False))
        then Inl (NotCallable (shown (or_else_s (getProp_s st obj ''path'') obj)))
      else if isCallable_s resolved \<and> truthy_s (getDef_s (getProp_s st obj ''call'') (SBool False))
              \<and> truthy_s (getDef_s (getProp_s st obj ''call'') (SBool True))
              \<and> providedLength_s st obj \<noteq> requiredLength_s resolved
        then Inl (InvalidParameterCount (shown (or_else_s (getProp_s st obj ''path'') obj))
                    (shown (providedLength_s st obj)) (shown (requiredLength_s resolved)))
      else Inr True)"

text \<open>The three closures; the last two read \<^verbatim>\<open>obj.parameters\<close> when they run.\<close>

datatype sreference =
    SAsResolved sval
  | SCallFunction callable sval
  | SInstantiate callable sval

fun getReference_s :: "shost \<Rightarrow> sreference \<Rightarrow> store \<Rightarrow> sval outcome" where
  "getReference_s h (SAsResolved resolved) st = Return resolved st"
| "getReference_s h (SCallFunction c obj) st = call_st h c (spreadArgs_s st obj) st"
| "getReference_s h (SInstantiate c obj) st = construct_st h c (spreadArgs_s st obj) st"

fun invocation_s :: "sval \<Rightarrow> sval \<Rightarrow> sreference option" where
  "invocation_s (SFun c) obj =
     (if isFunction c then Some (SCallFunction c obj) else Some (SInstantiate c obj))"
| "invocation_s v obj = None"

fun lengthPositive_s :: "sval \<Rightarrow> bool" where
  "lengthPositive_s (SNum n) = (n > 0)"
| "lengthPositive_s v = False"

function (sequential) fill_s :: "nat \<Rightarrow> shost \<Rightarrow> sval \<Rightarrow> sval \<Rightarrow> string list \<Rightarrow> pathElem list \<Rightarrow> store \<Rightarrow> sval outcome"
and tryMakeReferenceable_s ::
      "nat \<Rightarrow> shost \<Rightarrow> sval \<Rightarrow> sval \<Rightarrow> sval \<Rightarrow> store \<Rightarrow> sreference option outcome"
and fillArray_s ::
      "nat \<Rightarrow> shost \<Rightarrow> nat \<Rightarrow> nat \<Rightarrow> sval \<Rightarrow> string list \<Rightarrow> pathElem list \<Rightarrow> store \<Rightarrow> unit outcome"
and fillEntries_s ::
      "nat \<Rightarrow> shost \<Rightarrow> (string \<times> sval) list \<Rightarrow> sval \<Rightarrow> string list \<Rightarrow> pathElem list \<Rightarrow> store
         \<Rightarrow> (string \<times> sval) list outcome"
where
  "fill_s 0 h input data ignoredPaths currentPath st = OutOfFuel"
| "fill_s (Suc n) h input data ignoredPaths currentPath st =
     (if typeof_s input \<noteq> ''string'' \<and> typeof_s input \<noteq> ''object'' then Return input st
      else
        (case parsePathObject_s h input st of
           Inl e \<Rightarrow> Throw e st
         | Inr (parsed, st1) \<Rightarrow>
            (case tryMakeReferenceable_s n h parsed
                    (tryResolveDotPath_s st1 (getProp_s st1 parsed ''path'') data) data st1 of
               OutOfFuel \<Rightarrow> OutOfFuel
             | Throw e st2 \<Rightarrow> Throw e st2
             | Return (Some getRef) st2 \<Rightarrow> getReference_s h getRef st2
             | Return None st2 \<Rightarrow>
                (if typeof_s input = ''string'' then Return input st2
                 else
                   (case input of
                      SRef a \<Rightarrow>
                        (case lookup st2 a of
                           Some (ArrCell xs) \<Rightarrow>
                             (case fillArray_s n h a 0 data ignoredPaths currentPath st2 of
                                OutOfFuel \<Rightarrow> OutOfFuel
                              | Throw e st3 \<Rightarrow> Throw e st3
                              | Return u st3 \<Rightarrow> Return input st3)
                         | Some (ObjCell kvs) \<Rightarrow>
                             (case fillEntries_s n h kvs data ignoredPaths currentPath st2 of
                                OutOfFuel \<Rightarrow> OutOfFuel
                              | Throw e st3 \<Rightarrow> Throw e st3
                              | Return entries st3 \<Rightarrow>
                                 (case alloc (ObjCell entries) st3 of
                                    (a', st4) \<Rightarrow> Return (SRef a') st4))
                         | None \<Rightarrow> Throw TypeError st2)
                    | _ \<Rightarrow> Throw TypeError st2)))))"
| "tryMakeReferenceable_s 0 h obj resolved data st = OutOfFuel"
| "tryMakeReferenceable_s (Suc n) h obj resolved data st =
     (if \<not> isValidPathObject_s st obj then Return None st
      else
        (case pathObjectExpressesSymbol_s st obj resolved of
           Inl e \<Rightarrow> Throw e st
         | Inr ok \<Rightarrow>
            (if \<not> ok then Return None st
             else if \<not> isCallable_s resolved then Return (Some (SAsResolved resolved)) st
             else if \<not> truthy_s (getDef_s (getProp_s st obj ''call'') (SBool True))
               then Return (Some (SAsResolved resolved)) st
             else
               (case (if truthy_s (getProp_s st obj ''supportsNested'')
                         \<and> truthy_s (getProp_s st obj ''parameters'')
                         \<and> lengthPositive_s (getProp_s st (getProp_s st obj ''parameters'') ''length'')
                      then
                        (case fill_s n h (getProp_s st obj ''parameters'') data [] [] st of
                           OutOfFuel \<Rightarrow> OutOfFuel
                         | Throw e st1 \<Rightarrow> Throw e st1
                         | Return parameters st1 \<Rightarrow>
                             Return () (assignProp st1 obj ''parameters'' parameters))
                      else Return () st) of
                  OutOfFuel \<Rightarrow> OutOfFuel
                | Throw e st1 \<Rightarrow> Throw e st1
                | Return u st1 \<Rightarrow> Return (invocation_s resolved obj) st1))))"
| "fillArray_s 0 h a i data ignoredPaths currentPath st = OutOfFuel"
| "fillArray_s (Suc n) h a i data ignoredPaths currentPath st =
     (case lookup st a of
        Some (ArrCell xs) \<Rightarrow>
          (if i < length xs then
             (case (if joinPath (currentPath @ [Index i]) \<notin> set ignoredPaths
                    then fill_s n h (xs ! i) data ignoredPaths currentPath st
                    else Return (xs ! i) st) of
                OutOfFuel \<Rightarrow> OutOfFuel
              | Throw e st1 \<Rightarrow> Throw e st1
              | Return res st1 \<Rightarrow>
                  fillArray_s n h a (Suc i) data ignoredPaths currentPath (assignIndex st1 a i res))
           else Return () st)
      | _ \<Rightarrow> Return () st)"
| "fillEntries_s 0 h kvs data ignoredPaths currentPath st = OutOfFuel"
| "fillEntries_s (Suc n) h [] data ignoredPaths currentPath st = Return [] st"
| "fillEntries_s (Suc n) h ((k, v) # kvs) data ignoredPaths currentPath st =
     (case (if joinPath (currentPath @ [Key k]) \<notin> set ignoredPaths
            then
              (case parsePathObject_s h v st of
                 Inl e \<Rightarrow> Throw e st
               | Inr (parsed, st1) \<Rightarrow>
                  (case tryMakeReferenceable_s n h parsed
                          (tryResolveDotPath_s st1 (or_else_s (getProp_s st1 parsed ''path'') v) data)
                          data st1 of
                     OutOfFuel \<Rightarrow> OutOfFuel
                   | Throw e st2 \<Rightarrow> Throw e st2
                   | Return (Some getRef) st2 \<Rightarrow> getReference_s h getRef st2
                   | Return None st2 \<Rightarrow>
                       fill_s n h v data ignoredPaths (currentPath @ [Key k]) st2))
            else Return v st) of
        OutOfFuel \<Rightarrow> OutOfFuel
      | Throw e st1 \<Rightarrow> Throw e st1
      | Return res st1 \<Rightarrow>
         (case fillEntries_s n h kvs data ignoredPaths currentPath st1 of
            OutOfFuel \<Rightarrow> OutOfFuel
          | Throw e st2 \<Rightarrow> Throw e st2
          | Return rest st2 \<Rightarrow> Return ((k, res) # rest) st2))"

  by pat_completeness auto

termination
  by (relation "measure (\<lambda>x. case x of
      Inl (Inl (n, r)) \<Rightarrow> n
    | Inl (Inr (n, r)) \<Rightarrow> n
    | Inr (Inl (n, r)) \<Rightarrow> n
    | Inr (Inr (n, r)) \<Rightarrow> n)") auto

definition plain_shost :: shost where
  "plain_shost = \<lparr> parse_json = json_decode,
       call_st = (\<lambda>c args st. if fid c = 4 then Return (case args of [] \<Rightarrow> SUndefined | x # _ \<Rightarrow> x) st
                               else Throw (HostError ''not modelled'') st),
       construct_st = (\<lambda>c args st. Throw (HostError ''not modelled'') st) \<rparr>"

section \<open>Fuel\<close>

text \<open>
  The fuel bounds the depth of the recursion and nothing else: an outcome other than
  \<open>OutOfFuel\<close> stays the same with more fuel.
\<close>

lemma fill_s_more:
  assumes tmr: "\<forall>obj resolved data st.
      tryMakeReferenceable_s n h obj resolved data st \<noteq> OutOfFuel \<longrightarrow>
      tryMakeReferenceable_s (Suc n) h obj resolved data st = tryMakeReferenceable_s n h obj resolved data st"
    and arr: "\<forall>a i data ign cp st.
      fillArray_s n h a i data ign cp st \<noteq> OutOfFuel \<longrightarrow>
      fillArray_s (Suc n) h a i data ign cp st = fillArray_s n h a i data ign cp st"
    and ent: "\<forall>kvs data ign cp st.
      fillEntries_s n h kvs data ign cp st \<noteq> OutOfFuel \<longrightarrow>
      fillEntries_s (Suc n) h kvs data ign cp st = fillEntries_s n h kvs data ign cp st"
    and run: "fill_s (Suc n) h input data ign cp st \<noteq> OutOfFuel"
  shows "fill_s (Suc (Suc n)) h input data ign cp st = fill_s (Suc n) h input data ign cp st"
proof (cases "typeof_s input \<noteq> ''string'' \<and> typeof_s input \<noteq> ''object''")
  case True
  then show ?thesis by (auto simp: fill_s.simps)
next
  case False
  show ?thesis
  proof (cases "parsePathObject_s h input st")
    case (Inl e)
    with False show ?thesis by (auto simp: fill_s.simps)
  next
    case (Inr pr)
    obtain parsed st1 where pr: "pr = (parsed, st1)" by (cases pr)
    let ?res = "tryResolveDotPath_s st1 (getProp_s st1 parsed ''path'') data"
    from run False Inr pr have t0: "tryMakeReferenceable_s n h parsed ?res data st1 \<noteq> OutOfFuel"
      by (auto simp: fill_s.simps(2) [of n])
    with tmr have t: "tryMakeReferenceable_s (Suc n) h parsed ?res data st1
        = tryMakeReferenceable_s n h parsed ?res data st1"
      by blast
    show ?thesis
    proof (cases "tryMakeReferenceable_s n h parsed ?res data st1")
      case OutOfFuel
      with t0 show ?thesis by simp
    next
      case (Throw e st2)
      with False Inr pr t show ?thesis by (auto simp: fill_s.simps)
    next
      case (Return r st2)
      show ?thesis
      proof (cases r)
        case (Some getRef)
        with False Inr pr t Return show ?thesis by (auto simp: fill_s.simps)
      next
        case None
        show ?thesis
        proof (cases "typeof_s input = ''string''")
          case True
          with False Inr pr t Return None show ?thesis by (auto simp: fill_s.simps)
        next
          case notstr: False
          show ?thesis
          proof (cases "\<exists>a c. input = SRef a \<and> lookup st2 a = Some c")
            case False
            with \<open>\<not> (typeof_s input \<noteq> ''string'' \<and> typeof_s input \<noteq> ''object'')\<close>
              Inr pr t Return None notstr show ?thesis
              by (auto simp: fill_s.simps split: sval.splits option.splits)
          next
            case True
            then obtain a c where a: "input = SRef a" "lookup st2 a = Some c" by blast
            show ?thesis
            proof (cases c)
              case (ArrCell xs)
              with run False Inr pr Return None notstr a
              have "fillArray_s n h a 0 data ign cp st2 \<noteq> OutOfFuel"
                by (auto simp: fill_s.simps(2) [of n])
              with arr have "fillArray_s (Suc n) h a 0 data ign cp st2 = fillArray_s n h a 0 data ign cp st2"
                by blast
              with False Inr pr t Return None notstr a ArrCell show ?thesis
                by (auto simp: fill_s.simps)
            next
              case (ObjCell kvs)
              with run False Inr pr Return None notstr a
              have "fillEntries_s n h kvs data ign cp st2 \<noteq> OutOfFuel"
                by (auto simp: fill_s.simps(2) [of n])
              with ent have "fillEntries_s (Suc n) h kvs data ign cp st2 = fillEntries_s n h kvs data ign cp st2"
                by blast
              with False Inr pr t Return None notstr a ObjCell show ?thesis
                by (auto simp: fill_s.simps)
            qed
          qed
        qed
      qed
    qed
  qed
qed


lemma tryMakeReferenceable_s_more:
  assumes fil: "\<forall>input data ign cp st.
      fill_s n h input data ign cp st \<noteq> OutOfFuel \<longrightarrow>
      fill_s (Suc n) h input data ign cp st = fill_s n h input data ign cp st"
    and run: "tryMakeReferenceable_s (Suc n) h obj resolved data st \<noteq> OutOfFuel"
  shows "tryMakeReferenceable_s (Suc (Suc n)) h obj resolved data st
       = tryMakeReferenceable_s (Suc n) h obj resolved data st"
proof (cases "fill_s n h (getProp_s st obj ''parameters'') data [] [] st = OutOfFuel")
  case False
  with fil have "fill_s (Suc n) h (getProp_s st obj ''parameters'') data [] [] st
      = fill_s n h (getProp_s st obj ''parameters'') data [] [] st"
    by blast
  then show ?thesis
    by (auto simp: tryMakeReferenceable_s.simps split: sum.splits)
next
  case True
  with run show ?thesis
    by (auto simp: tryMakeReferenceable_s.simps split: if_splits sum.splits)
qed

lemma fillArray_s_more:
  assumes fil: "\<forall>input data ign cp st.
      fill_s n h input data ign cp st \<noteq> OutOfFuel \<longrightarrow>
      fill_s (Suc n) h input data ign cp st = fill_s n h input data ign cp st"
    and arr: "\<forall>a i data ign cp st.
      fillArray_s n h a i data ign cp st \<noteq> OutOfFuel \<longrightarrow>
      fillArray_s (Suc n) h a i data ign cp st = fillArray_s n h a i data ign cp st"
    and run: "fillArray_s (Suc n) h a i data ign cp st \<noteq> OutOfFuel"
  shows "fillArray_s (Suc (Suc n)) h a i data ign cp st = fillArray_s (Suc n) h a i data ign cp st"
proof (cases "\<exists>xs. lookup st a = Some (ArrCell xs) \<and> i < length xs")
  case False
  then show ?thesis
    by (auto simp: fillArray_s.simps split: option.splits cell.splits)
next
  case True
  then obtain xs where xs: "lookup st a = Some (ArrCell xs)" "i < length xs" by blast
  show ?thesis
  proof (cases "joinPath (cp @ [Index i]) \<notin> set ign")
    case True
    with run xs have f0: "fill_s n h (xs ! i) data ign cp st \<noteq> OutOfFuel"
      by (auto simp: fillArray_s.simps(2) [of n])
    with fil have f: "fill_s (Suc n) h (xs ! i) data ign cp st = fill_s n h (xs ! i) data ign cp st"
      by blast
    show ?thesis
    proof (cases "fill_s n h (xs ! i) data ign cp st")
      case OutOfFuel
      with f0 show ?thesis by simp
    next
      case (Throw e st1)
      with xs True f show ?thesis by (simp add: fillArray_s.simps)
    next
      case (Return res st1)
      with run xs True
      have "fillArray_s n h a (Suc i) data ign cp (assignIndex st1 a i res) \<noteq> OutOfFuel"
        by (auto simp: fillArray_s.simps(2) [of n])
      with arr have "fillArray_s (Suc n) h a (Suc i) data ign cp (assignIndex st1 a i res)
          = fillArray_s n h a (Suc i) data ign cp (assignIndex st1 a i res)"
        by blast
      with xs True f Return show ?thesis by (simp add: fillArray_s.simps)
    qed
  next
    case False
    with run xs
    have "fillArray_s n h a (Suc i) data ign cp (assignIndex st a i (xs ! i)) \<noteq> OutOfFuel"
      by (auto simp: fillArray_s.simps(2) [of n])
    with arr have "fillArray_s (Suc n) h a (Suc i) data ign cp (assignIndex st a i (xs ! i))
        = fillArray_s n h a (Suc i) data ign cp (assignIndex st a i (xs ! i))"
      by blast
    with xs False show ?thesis by (simp add: fillArray_s.simps)
  qed
qed

lemma fillEntries_s_more:
  assumes fil: "\<forall>input data ign cp st.
      fill_s n h input data ign cp st \<noteq> OutOfFuel \<longrightarrow>
      fill_s (Suc n) h input data ign cp st = fill_s n h input data ign cp st"
    and tmr: "\<forall>obj resolved data st.
      tryMakeReferenceable_s n h obj resolved data st \<noteq> OutOfFuel \<longrightarrow>
      tryMakeReferenceable_s (Suc n) h obj resolved data st = tryMakeReferenceable_s n h obj resolved data st"
    and ent: "\<forall>kvs data ign cp st.
      fillEntries_s n h kvs data ign cp st \<noteq> OutOfFuel \<longrightarrow>
      fillEntries_s (Suc n) h kvs data ign cp st = fillEntries_s n h kvs data ign cp st"
    and run: "fillEntries_s (Suc n) h kvs data ign cp st \<noteq> OutOfFuel"
  shows "fillEntries_s (Suc (Suc n)) h kvs data ign cp st = fillEntries_s (Suc n) h kvs data ign cp st"
proof (cases kvs)
  case Nil
  then show ?thesis by (simp add: fillEntries_s.simps)
next
  case (Cons kv rest)
  obtain k v where kv: "kv = (k, v)" by (cases kv)
  define entry where "entry m =
     (if joinPath (cp @ [Key k]) \<notin> set ign
            then
              (case parsePathObject_s h v st of
                 Inl e \<Rightarrow> Throw e st
               | Inr (parsed, st1) \<Rightarrow>
                  (case tryMakeReferenceable_s m h parsed
                          (tryResolveDotPath_s st1 (or_else_s (getProp_s st1 parsed ''path'') v) data)
                          data st1 of
                     OutOfFuel \<Rightarrow> OutOfFuel
                   | Throw e st2 \<Rightarrow> Throw e st2
                   | Return (Some getRef) st2 \<Rightarrow> getReference_s h getRef st2
                   | Return None st2 \<Rightarrow>
                       fill_s m h v data ign (cp @ [Key k]) st2))
            else Return v st)" for m
  have unfold: "fillEntries_s (Suc m) h kvs data ign cp st =
      (case entry m of
        OutOfFuel \<Rightarrow> OutOfFuel
      | Throw e st1 \<Rightarrow> Throw e st1
      | Return res st1 \<Rightarrow>
         (case fillEntries_s m h rest data ign cp st1 of
            OutOfFuel \<Rightarrow> OutOfFuel
          | Throw e st2 \<Rightarrow> Throw e st2
          | Return rest' st2 \<Rightarrow> Return ((k, res) # rest') st2))" for m
    by (simp add: Cons kv fillEntries_s.simps entry_def)
  have e0: "entry n \<noteq> OutOfFuel"
    using run by (auto simp: unfold)
  have e: "entry (Suc n) = entry n"
  proof (cases "joinPath (cp @ [Key k]) \<notin> set ign")
    case False
    then show ?thesis by (simp add: entry_def)
  next
    case True
    show ?thesis
    proof (cases "parsePathObject_s h v st")
      case (Inl e)
      with True show ?thesis by (simp add: entry_def)
    next
      case (Inr pr)
      obtain parsed st1 where pr: "pr = (parsed, st1)" by (cases pr)
      let ?res = "tryResolveDotPath_s st1 (or_else_s (getProp_s st1 parsed ''path'') v) data"
      from e0 True Inr pr have t0: "tryMakeReferenceable_s n h parsed ?res data st1 \<noteq> OutOfFuel"
        by (auto simp: entry_def)
      with tmr have t: "tryMakeReferenceable_s (Suc n) h parsed ?res data st1
          = tryMakeReferenceable_s n h parsed ?res data st1"
        by blast
      show ?thesis
      proof (cases "tryMakeReferenceable_s n h parsed ?res data st1")
        case OutOfFuel
        with t0 show ?thesis by simp
      next
        case (Throw e st2)
        with True Inr pr t show ?thesis by (simp add: entry_def)
      next
        case (Return r st2)
        show ?thesis
        proof (cases r)
          case (Some getRef)
          with True Inr pr t Return show ?thesis by (simp add: entry_def)
        next
          case None
          with e0 True Inr pr Return
          have "fill_s n h v data ign (cp @ [Key k]) st2 \<noteq> OutOfFuel"
            by (auto simp: entry_def)
          with fil have "fill_s (Suc n) h v data ign (cp @ [Key k]) st2
              = fill_s n h v data ign (cp @ [Key k]) st2"
            by blast
          with True Inr pr t Return None show ?thesis by (simp add: entry_def)
        qed
      qed
    qed
  qed
  show ?thesis
  proof (cases "entry n")
    case OutOfFuel
    with e0 show ?thesis by simp
  next
    case (Throw e st1)
    with e show ?thesis by (simp add: unfold)
  next
    case (Return res st1)
    with run have "fillEntries_s n h rest data ign cp st1 \<noteq> OutOfFuel"
      by (auto simp: unfold)
    with ent have "fillEntries_s (Suc n) h rest data ign cp st1 = fillEntries_s n h rest data ign cp st1"
      by blast
    with e Return show ?thesis by (simp add: unfold)
  qed
qed

lemma more_fuel_step:
  "(\<forall>input data ign cp st.
      fill_s n h input data ign cp st \<noteq> OutOfFuel \<longrightarrow>
      fill_s (Suc n) h input data ign cp st = fill_s n h input data ign cp st)
   \<and> (\<forall>obj resolved data st.
      tryMakeReferenceable_s n h obj resolved data st \<noteq> OutOfFuel \<longrightarrow>
      tryMakeReferenceable_s (Suc n) h obj resolved data st = tryMakeReferenceable_s n h obj resolved data st)
   \<and> (\<forall>a i data ign cp st.
      fillArray_s n h a i data ign cp st \<noteq> OutOfFuel \<longrightarrow>
      fillArray_s (Suc n) h a i data ign cp st = fillArray_s n h a i data ign cp st)
   \<and> (\<forall>kvs data ign cp st.
      fillEntries_s n h kvs data ign cp st \<noteq> OutOfFuel \<longrightarrow>
      fillEntries_s (Suc n) h kvs data ign cp st = fillEntries_s n h kvs data ign cp st)"
proof (induction n)
  case 0
  show ?case
    by (simp add: fill_s.simps tryMakeReferenceable_s.simps fillArray_s.simps fillEntries_s.simps)
next
  case (Suc n)
  from Suc have fil: "\<forall>input data ign cp st.
      fill_s n h input data ign cp st \<noteq> OutOfFuel \<longrightarrow>
      fill_s (Suc n) h input data ign cp st = fill_s n h input data ign cp st"
    by simp
  from Suc have tmr: "\<forall>obj resolved data st.
      tryMakeReferenceable_s n h obj resolved data st \<noteq> OutOfFuel \<longrightarrow>
      tryMakeReferenceable_s (Suc n) h obj resolved data st = tryMakeReferenceable_s n h obj resolved data st"
    by simp
  from Suc have arr: "\<forall>a i data ign cp st.
      fillArray_s n h a i data ign cp st \<noteq> OutOfFuel \<longrightarrow>
      fillArray_s (Suc n) h a i data ign cp st = fillArray_s n h a i data ign cp st"
    by simp
  from Suc have ent: "\<forall>kvs data ign cp st.
      fillEntries_s n h kvs data ign cp st \<noteq> OutOfFuel \<longrightarrow>
      fillEntries_s (Suc n) h kvs data ign cp st = fillEntries_s n h kvs data ign cp st"
    by simp
  show ?case
    using fill_s_more [OF tmr arr ent] tryMakeReferenceable_s_more [OF fil]
      fillArray_s_more [OF fil arr] fillEntries_s_more [OF fil tmr ent]
    by blast
qed

lemma fill_s_more_fuel:
  "fill_s n h input data ign cp st \<noteq> OutOfFuel \<Longrightarrow>
     fill_s (n + k) h input data ign cp st = fill_s n h input data ign cp st"
proof (induction k)
  case 0
  show ?case by simp
next
  case (Suc k)
  then have "fill_s (n + k) h input data ign cp st \<noteq> OutOfFuel" by simp
  with more_fuel_step [of "n + k" h]
  have "fill_s (Suc (n + k)) h input data ign cp st = fill_s (n + k) h input data ign cp st"
    by blast
  with Suc show ?case by simp
qed

section \<open>What \<open>fill\<close> changes in the store\<close>

text \<open>
  A store \<^emph>\<open>extends\<close> another when every cell of the other is still there, an array
  still an array of the same length and an object still an object. \<open>fill\<close> extends the
  store whenever the host's functions do.
\<close>

declare fill_s.simps [simp del] tryMakeReferenceable_s.simps [simp del]
  fillArray_s.simps [simp del] fillEntries_s.simps [simp del]

fun shape :: "cell \<Rightarrow> nat option" where
  "shape (ArrCell xs) = Some (length xs)"
| "shape (ObjCell kvs) = None"

definition extends :: "store \<Rightarrow> store \<Rightarrow> bool" where
  "extends st st' \<longleftrightarrow> length st \<le> length st' \<and> map shape (take (length st) st') = map shape st"

definition host_extends :: "shost \<Rightarrow> bool" where
  "host_extends h \<longleftrightarrow>
     (\<forall>c args st v st'. call_st h c args st = Return v st' \<longrightarrow> extends st st')
     \<and> (\<forall>c args st v st'. construct_st h c args st = Return v st' \<longrightarrow> extends st st')"

lemma extends_refl: "extends st st"
  by (simp add: extends_def)



lemma extends_append: "extends st (st @ cs)"
  by (simp add: extends_def)


lemma extends_alloc: "alloc c st = (a, st') \<Longrightarrow> extends st st' \<and> a = length st \<and> lookup st' a = Some c"
  by (auto simp: alloc_def extends_append lookup_def)






















lemma host_extends_plain: "host_extends plain_shost"
  by (auto simp: host_extends_def plain_shost_def extends_refl split: if_splits)

section \<open>Arrays and mappings of plain values\<close>























































section \<open>The two readings on an example\<close>

text \<open>
  The value that \<open>fill_s\<close> leaves behind its result, read out of the store, is the value
  that \<open>fill\<close> computes: checked here on a configuration with a descriptor in a mapping,
  in an array and in the parameters of a structured descriptor, once with an ignored
  path and once with the error of a \<^verbatim>\<open>call\<close> on a number.
\<close>

fun value_of :: "nat \<Rightarrow> store \<Rightarrow> sval \<Rightarrow> jsval option" where
  "value_of 0 st v = None"
| "value_of (Suc n) st SUndefined = Some Undefined"
| "value_of (Suc n) st SNull = Some Null"
| "value_of (Suc n) st (SBool b) = Some (Bool b)"
| "value_of (Suc n) st (SNum i) = Some (Num i)"
| "value_of (Suc n) st SNaN = Some NaN"
| "value_of (Suc n) st (SStr s) = Some (Str s)"
| "value_of (Suc n) st (SFun c) = Some (Fun c)"
| "value_of (Suc n) st (SRef a) =
     (case lookup st a of
        None \<Rightarrow> None
      | Some (ArrCell xs) \<Rightarrow> map_option Arr (those (map (value_of n st) xs))
      | Some (ObjCell kvs) \<Rightarrow>
          map_option Obj (those (map (\<lambda>kv. map_option (Pair (fst kv)) (value_of n st (snd kv))) kvs)))"

definition result_value :: "nat \<Rightarrow> sval outcome \<Rightarrow> (error + jsval) option" where
  "result_value n r =
     (case r of
        OutOfFuel \<Rightarrow> None
      | Throw e st \<Rightarrow> Some (Inl e)
      | Return v st \<Rightarrow> map_option Inr (value_of n st v))"

definition config_example :: jsval where
  "config_example =
     Obj [(''a'', Str ''{x}''), (''b'', Arr [Str ''{x}'', Obj [(''c'', Str ''{y;;true}'')]]),
          (''d'', Obj [(''path'', Str ''echo''), (''parameters'', Arr [Str ''{x}''])])]"

definition data_example :: jsval where
  "data_example = Obj [(''x'', Num 5), (''y'', Num 6), (''echo'', Fun f_echo)]"

lemma fill_s_agrees_example:
  "(case store_val data_example [] of (d, st) \<Rightarrow> (case store_val config_example st of (i, st') \<Rightarrow>
      result_value 5 (fill_s 20 plain_shost i d [''b.1''] [] st')))
   = Some (fill demo_host config_example data_example [''b.1''] [])"
  "(case store_val data_example [] of (d, st) \<Rightarrow> (case store_val config_example st of (i, st') \<Rightarrow>
      result_value 5 (fill_s 20 plain_shost i d [] [] st')))
   = Some (fill demo_host config_example data_example [] [])"
  by code_simp+

end
